theory Spec2Isabelle
  imports Main "HOL-Library.Word"
begin

unbundle bit_operations_syntax

section \<open>Machine model\<close>

text \<open>
  The allocator of \<^verbatim>\<open>fb_alloc.h\<close> is modelled on an LP64 machine: \<^verbatim>\<open>size_t\<close> and
  \<^verbatim>\<open>char*\<close> are 64-bit words (pointer arithmetic wraps as the hardware does),
  \<^verbatim>\<open>unsigned int\<close> is a 32-bit word, and \<^verbatim>\<open>sizeof(char*)\<close> is 8. Memory is a flat array
  of bytes; a pointer is stored in eight consecutive bytes, least significant first. The
  null pointer is the word 0.
\<close>

type_synonym size_t = "64 word"
type_synonym uint = "32 word"
type_synonym ptr = "64 word"
type_synonym byte = "8 word"
type_synonym memory = "ptr \<Rightarrow> byte"

definition sizeof_ptr :: size_t where
  "sizeof_ptr = 8"

definition byte_of :: "ptr \<Rightarrow> nat \<Rightarrow> byte" where
  "byte_of v k = ucast (drop_bit (8 * k) v)"

text \<open>\<^verbatim>\<open>*(char**)a = v\<close>: the eight bytes at \<open>a, ..., a + 7\<close> are overwritten.\<close>

definition store64 :: "memory \<Rightarrow> ptr \<Rightarrow> ptr \<Rightarrow> memory" where
  "store64 m a v = (\<lambda>x. if x - a < 8 then byte_of v (unat (x - a)) else m x)"

text \<open>\<^verbatim>\<open>*(char**)a\<close>: the eight bytes at \<open>a, ..., a + 7\<close> read as one pointer.\<close>

definition load64 :: "memory \<Rightarrow> ptr \<Rightarrow> ptr" where
  "load64 m a =
     (ucast (m a) OR push_bit 8 (ucast (m (a + 1))) OR push_bit 16 (ucast (m (a + 2)))
      OR push_bit 24 (ucast (m (a + 3))) OR push_bit 32 (ucast (m (a + 4)))
      OR push_bit 40 (ucast (m (a + 5))) OR push_bit 48 (ucast (m (a + 6)))
      OR push_bit 56 (ucast (m (a + 7))))"

text \<open>
  Two eight-byte fields at \<open>a\<close> and \<open>b\<close> do not overlap when \<open>b - a\<close>, as an unsigned
  word, lies between 8 and \<open>2\<^sup>6\<^sup>4 - 8\<close>.
\<close>

definition apart :: "ptr \<Rightarrow> ptr \<Rightarrow> bool" where
  "apart a b \<longleftrightarrow> 8 \<le> b - a \<and> b - a \<le> - 8"

text \<open>\<^verbatim>\<open>memset(pp, 0, n)\<close>.\<close>

definition memset0 :: "memory \<Rightarrow> ptr \<Rightarrow> size_t \<Rightarrow> memory" where
  "memset0 m pp n = (\<lambda>x. if x - pp < n then 0 else m x)"

text \<open>
  A C \<^verbatim>\<open>int\<close> is a 32-bit word read as a two's complement number (\<open>sint\<close>), in the range
  \<open>INT_MIN .. INT_MAX\<close>; an increment or decrement whose result leaves the range is
  undefined behaviour and ends the run.
\<close>

type_synonym cint = "32 word"

definition INT_MAX :: int where
  "INT_MAX = 2147483647"

definition INT_MIN :: int where
  "INT_MIN = - 2147483648"

datatype fault =
  Assertion_failed
  | Null_dereference
  | Dangling_pointer
  | Signed_overflow
  | Unexpected_exception

text \<open>
  What a call does: it returns a value and leaves a state, it throws \<^verbatim>\<open>std::bad_alloc\<close>
  and leaves the state it had reached, or the process dies.
\<close>

datatype ('a, 's) outcome =
  Returns 'a 's
  | Throws_bad_alloc 's
  | Aborts fault

definition int_add :: "cint \<Rightarrow> int \<Rightarrow> fault + cint" where
  "int_add v d =
     (if INT_MIN \<le> sint v + d \<and> sint v + d \<le> INT_MAX then Inr (v + word_of_int d)
      else Inl Signed_overflow)"

section \<open>The class template and its static members\<close>

text \<open>
  One instantiation of the class template is fixed by its template arguments: the element
  type \<open>T\<close> (its name and \<^verbatim>\<open>sizeof(T)\<close>), \<open>nof_elements\<close> and \<open>alignment\<close>. \<open>NDEBUG\<close> tells
  whether \<^verbatim>\<open>assert\<close> is compiled out. The model is of the default build, in which
  \<^verbatim>\<open>CHUNKS_RETURNED_TO_MALLOC\<close> is not defined.
\<close>

record config =
  T_name :: string
  sizeof_T :: size_t
  nof_elements :: uint
  alignment :: size_t
  NDEBUG :: bool

text \<open>The static members, one set for each instantiation.\<close>

record statics =
  global_chunk_head :: ptr
  nof_allocated_chunks :: cint
  nof_free_chunks :: cint

text \<open>
  The process: the byte memory, the \<^verbatim>\<open>int\<close> objects made by \<^verbatim>\<open>new int\<close> (a null
  \<^verbatim>\<open>int*\<close> is \<open>None\<close>), the static members of every instantiation, and the requests the
  process heap has served and taken back. The heap is outside the program: every call that
  may ask it for storage takes the heap's answer as an argument (\<open>None\<close> when the heap is
  exhausted).
\<close>

record world =
  mem :: memory
  ints :: "nat \<rightharpoonup> cint"
  statics_of :: "config \<Rightarrow> statics"
  heap_log :: "(size_t \<times> ptr) list"
  heap_freed :: "ptr list"

text \<open>The data members of one allocator object.\<close>

record fb_alloc =
  nof_elmts_m :: uint
  elsize_m :: size_t
  alignment_m :: size_t
  pool_head_m :: ptr
  chunk_head_m :: ptr
  refcount_m :: "nat option"
  nof_allocs_m :: "nat option"

definition assert :: "config \<Rightarrow> bool \<Rightarrow> bool" where
  "assert cfg b = (NDEBUG cfg \<or> b)"

text \<open>\<^verbatim>\<open>*p += d\<close> on an \<^verbatim>\<open>int*\<close>; the new value is returned with the world.\<close>

definition add_int :: "world \<Rightarrow> nat option \<Rightarrow> int \<Rightarrow> fault + (cint \<times> world)" where
  "add_int w p d =
     (case p of
        None \<Rightarrow> Inl Null_dereference
      | Some c \<Rightarrow>
          (case ints w c of
             None \<Rightarrow> Inl Dangling_pointer
           | Some v \<Rightarrow>
               (case int_add v d of
                  Inl f \<Rightarrow> Inl f
                | Inr v' \<Rightarrow> Inr (v', w\<lparr>ints := (ints w)(c \<mapsto> v')\<rparr>))))"

text \<open>\<^verbatim>\<open>*p = v\<close> on an \<^verbatim>\<open>int*\<close>.\<close>

definition write_int :: "world \<Rightarrow> nat option \<Rightarrow> cint \<Rightarrow> fault + world" where
  "write_int w p v =
     (case p of
        None \<Rightarrow> Inl Null_dereference
      | Some c \<Rightarrow>
          (case ints w c of
             None \<Rightarrow> Inl Dangling_pointer
           | Some _ \<Rightarrow> Inr (w\<lparr>ints := (ints w)(c \<mapsto> v)\<rparr>)))"

text \<open>\<^verbatim>\<open>delete p\<close> on an \<^verbatim>\<open>int*\<close>; deleting a null pointer does nothing.\<close>

definition delete_int :: "world \<Rightarrow> nat option \<Rightarrow> fault + world" where
  "delete_int w p =
     (case p of
        None \<Rightarrow> Inr w
      | Some c \<Rightarrow>
          (case ints w c of
             None \<Rightarrow> Inl Dangling_pointer
           | Some _ \<Rightarrow> Inr (w\<lparr>ints := (ints w)(c := None)\<rparr>)))"

section \<open>Element size\<close>

text \<open>
  The loop of both constructors:
  \<^verbatim>\<open>for( ; elsize_ < elsize_ + alignment_; ++elsize_ ) if ( (elsize_ % alignment_) == 0 ) break;\<close>
\<close>

function calc_elsize :: "size_t \<Rightarrow> size_t \<Rightarrow> size_t" where
  "calc_elsize e a =
     (if e < e + a then (if e mod a = 0 then e else calc_elsize (e + 1) a) else e)"
  by pat_completeness auto
termination
proof (relation "measure (\<lambda>(e, a). 2 ^ 64 - unat e)")
  show "wf (measure (\<lambda>(e :: size_t, a :: size_t). 2 ^ 64 - unat e))"
    by simp
next
  fix e a :: size_t
  assume g: "e < e + a"
  have "e \<noteq> - 1"
  proof
    assume "e = - 1"
    then have "e + a \<le> e" by simp
    with g show False by simp
  qed
  then have "1 + e \<noteq> 0"
    by (metis add.commute add_eq_0_iff)
  then have "unat (e + 1) = Suc (unat e)"
    using unatSuc [of e] by (simp add: add.commute)
  moreover have "unat e < 2 ^ 64"
    using unsigned_less [of e] by simp
  ultimately show "((e + 1, a), (e, a)) \<in> measure (\<lambda>(e, a). 2 ^ 64 - unat e)"
    by simp
qed

text \<open>
  The value the specification asks for, on unbounded naturals: the smallest multiple of
  \<open>a\<close> that is at least \<open>s\<close>.
\<close>

definition least_multiple :: "nat \<Rightarrow> nat \<Rightarrow> nat" where
  "least_multiple s a = ((s + a - 1) div a) * a"

section \<open>Constructors and observers\<close>

text \<open>
  \<^verbatim>\<open>fb_alloc( void ) throw()\<close>. \<open>new1\<close> and \<open>new2\<close> are the heap's answers to the two
  \<^verbatim>\<open>new int\<close>; a \<^verbatim>\<open>bad_alloc\<close> leaving a \<^verbatim>\<open>throw()\<close> constructor ends the process.
\<close>

definition fb_alloc_ctor ::
  "config \<Rightarrow> world \<Rightarrow> nat option \<Rightarrow> nat option \<Rightarrow> (fb_alloc, world) outcome" where
  "fb_alloc_ctor cfg w new1 new2 =
     (let h = \<lparr>nof_elmts_m = nof_elements cfg, elsize_m = sizeof_T cfg,
               alignment_m = alignment cfg, pool_head_m = 0, chunk_head_m = 0,
               refcount_m = None, nof_allocs_m = None\<rparr>
      in if \<not> assert cfg (nof_elmts_m h > 0 \<and> elsize_m h > 0 \<and> alignment_m h > 0)
         then Aborts Assertion_failed
         else
           let h = h\<lparr>elsize_m := calc_elsize (elsize_m h) (alignment_m h)\<rparr>
           in case new1 of
                None \<Rightarrow> Aborts Unexpected_exception
              | Some c1 \<Rightarrow>
                  let w1 = w\<lparr>ints := (ints w)(c1 \<mapsto> 1)\<rparr>
                  in (case new2 of
                        None \<Rightarrow> Aborts Unexpected_exception
                      | Some c2 \<Rightarrow>
                          Returns (h\<lparr>refcount_m := Some c1, nof_allocs_m := Some c2\<rparr>)
                                  (w1\<lparr>ints := (ints w1)(c2 \<mapsto> 0)\<rparr>)))"

text \<open>
  \<^verbatim>\<open>template <typename U> fb_alloc( const fb_alloc<U,nof_elements,alignment>& fba ) throw()\<close>.
  \<open>new1\<close> and \<open>new2\<close> are the heap's answers to the two \<^verbatim>\<open>new (std::nothrow) int\<close>.
\<close>

definition fb_alloc_copy_ctor ::
  "config \<Rightarrow> world \<Rightarrow> fb_alloc \<Rightarrow> nat option \<Rightarrow> nat option \<Rightarrow> (fb_alloc, world) outcome"
  where
  "fb_alloc_copy_ctor cfg w fba new1 new2 =
     (let h = \<lparr>nof_elmts_m = nof_elements cfg, elsize_m = sizeof_T cfg,
               alignment_m = alignment cfg, pool_head_m = 0, chunk_head_m = 0,
               refcount_m = None, nof_allocs_m = None\<rparr>
      in if \<not> assert cfg (nof_elmts_m h > 0 \<and> elsize_m h > 0 \<and> alignment_m h > 0)
         then Aborts Assertion_failed
         else
           let h = h\<lparr>elsize_m := calc_elsize (elsize_m h) (alignment_m h)\<rparr>
           in if elsize_m h = elsize_m fba
              then
                (let h = h\<lparr>pool_head_m := pool_head_m fba, chunk_head_m := chunk_head_m fba,
                           refcount_m := refcount_m fba, nof_allocs_m := nof_allocs_m fba\<rparr>
                 in case add_int w (refcount_m h) 1 of
                      Inl f \<Rightarrow> Aborts f
                    | Inr (v, w') \<Rightarrow>
                        if \<not> assert cfg (sint v \<ge> 0) then Aborts Assertion_failed
                        else Returns h w')
              else
                (let w1 = (case new1 of None \<Rightarrow> w | Some c1 \<Rightarrow> w\<lparr>ints := (ints w)(c1 \<mapsto> 1)\<rparr>);
                     w2 = (case new2 of None \<Rightarrow> w1 | Some c2 \<Rightarrow> w1\<lparr>ints := (ints w1)(c2 \<mapsto> 0)\<rparr>)
                 in Returns (h\<lparr>refcount_m := new1, nof_allocs_m := new2\<rparr>) w2))"

text \<open>
  The copy constructor. The class declares none: a constructor template is never a copy
  constructor, though the comment above the member template calls it one. So
  \<^verbatim>\<open>fb_alloc<T,n,a> y(x);\<close> with \<^verbatim>\<open>x\<close> of the same type \<^verbatim>\<open>fb_alloc<T,n,a>\<close> runs the implicitly
  defined copy constructor, which copies the data members one by one and touches nothing
  else: the counters are shared and \<^verbatim>\<open>*refcount_\<close> is not incremented.
\<close>

definition fb_alloc_implicit_copy :: "world \<Rightarrow> fb_alloc \<Rightarrow> (fb_alloc, world) outcome" where
  "fb_alloc_implicit_copy w fba =
     Returns \<lparr>nof_elmts_m = nof_elmts_m fba, elsize_m = elsize_m fba,
              alignment_m = alignment_m fba, pool_head_m = pool_head_m fba,
              chunk_head_m = chunk_head_m fba, refcount_m = refcount_m fba,
              nof_allocs_m = nof_allocs_m fba\<rparr> w"

definition max_size :: "fb_alloc \<Rightarrow> size_t" where
  "max_size h = elsize_m h"

definition nof_elmts :: "fb_alloc \<Rightarrow> uint" where
  "nof_elmts h = nof_elmts_m h"

definition elsize :: "fb_alloc \<Rightarrow> size_t" where
  "elsize h = elsize_m h"

definition chunksize :: "fb_alloc \<Rightarrow> size_t" where
  "chunksize h = elsize_m h * ucast (nof_elmts_m h) + sizeof_ptr"

definition alignmnt :: "fb_alloc \<Rightarrow> size_t" where
  "alignmnt h = alignment_m h"

text \<open>
  \<^verbatim>\<open>refcount()\<close> and \<^verbatim>\<open>nof_allocs()\<close>: 0 for a null counter; reading a deleted counter
  is undefined behaviour.
\<close>

definition refcount :: "fb_alloc \<Rightarrow> world \<Rightarrow> fault + int" where
  "refcount h w =
     (case refcount_m h of
        Some c \<Rightarrow> (case ints w c of None \<Rightarrow> Inl Dangling_pointer | Some v \<Rightarrow> Inr (sint v))
      | None \<Rightarrow> Inr 0)"

definition nof_allocs :: "fb_alloc \<Rightarrow> world \<Rightarrow> fault + int" where
  "nof_allocs h w =
     (case nof_allocs_m h of
        Some c \<Rightarrow> (case ints w c of None \<Rightarrow> Inl Dangling_pointer | Some v \<Rightarrow> Inr (sint v))
      | None \<Rightarrow> Inr 0)"

section \<open>Chunks and the global chunk list\<close>

text \<open>
  \<^verbatim>\<open>allocate_chunk\<close>. \<open>heap\<close> is the answer of \<^verbatim>\<open>new char [...]\<close> should it be asked.
  The counter is incremented before the heap is asked, so it stays incremented when
  \<^verbatim>\<open>new\<close> throws.
\<close>

definition allocate_chunk ::
  "config \<Rightarrow> fb_alloc \<Rightarrow> world \<Rightarrow> ptr option \<Rightarrow> (ptr, world) outcome" where
  "allocate_chunk cfg h w heap =
     (let st = statics_of w cfg
      in if global_chunk_head st = 0
         then
           (case int_add (nof_allocated_chunks st) 1 of
              Inl f \<Rightarrow> Aborts f
            | Inr na \<Rightarrow>
                let w1 = w\<lparr>statics_of := (statics_of w)(cfg := st\<lparr>nof_allocated_chunks := na\<rparr>)\<rparr>;
                    sz = elsize_m h * ucast (nof_elmts_m h) + sizeof_ptr
                in (case heap of
                      None \<Rightarrow> Throws_bad_alloc w1
                    | Some pp \<Rightarrow>
                        Returns pp (w1\<lparr>mem := memset0 (mem w1) pp sz,
                                       heap_log := heap_log w1 @ [(sz, pp)]\<rparr>)))
         else
           (case int_add (nof_free_chunks st) (- 1) of
              Inl f \<Rightarrow> Aborts f
            | Inr nf \<Rightarrow>
                if \<not> assert cfg (sint nf \<ge> 0) then Aborts Assertion_failed
                else
                  let res = global_chunk_head st
                  in Returns res
                       (w\<lparr>statics_of := (statics_of w)
                            (cfg := st\<lparr>nof_free_chunks := nf,
                                       global_chunk_head := load64 (mem w) res\<rparr>)\<rparr>)))"

text \<open>\<^verbatim>\<open>deallocate_chunk\<close>.\<close>

definition deallocate_chunk :: "config \<Rightarrow> world \<Rightarrow> ptr \<Rightarrow> fault + world" where
  "deallocate_chunk cfg w p =
     (let st = statics_of w cfg;
          m' = store64 (mem w) p (global_chunk_head st)
      in case int_add (nof_free_chunks st) 1 of
           Inl f \<Rightarrow> Inl f
         | Inr nf \<Rightarrow>
             if \<not> assert cfg (sint nf \<le> sint (nof_allocated_chunks st)) then Inl Assertion_failed
             else Inr (w\<lparr>mem := m',
                         statics_of := (statics_of w)
                           (cfg := st\<lparr>global_chunk_head := p, nof_free_chunks := nf\<rparr>)\<rparr>))"

section \<open>Growing the pool\<close>

text \<open>
  One statement of the unrolled loop:
  \<^verbatim>\<open>( (alloc_link*)(p) )->next_ = (alloc_link*)( p + elsize_ ); p += elsize_;\<close>
\<close>

definition set_link :: "size_t \<Rightarrow> memory \<times> ptr \<Rightarrow> memory \<times> ptr" where
  "set_link e = (\<lambda>(m, p). (store64 m p (p + e), p + e))"

text \<open>
  The \<^verbatim>\<open>do { ... } while ( --nn > 0 )\<close> whose body holds eight such statements under the
  labels \<^verbatim>\<open>case 0, case 7, ..., case 1\<close>. A pass entered at a label runs the \<open>k\<close>
  statements from that label to the end of the body; every later pass runs all eight.
\<close>

function duff_loop :: "size_t \<Rightarrow> nat \<Rightarrow> int \<Rightarrow> memory \<times> ptr \<Rightarrow> memory \<times> ptr" where
  "duff_loop e k nn st =
     (let st' = (set_link e ^^ k) st;
          nn' = nn - 1
      in if nn' > 0 then duff_loop e 8 nn' st' else st')"
  by pat_completeness auto
termination
  by (relation "measure (\<lambda>(e, k, nn, st). nat nn)") auto

declare duff_loop.simps [simp del]

text \<open>
  \<^verbatim>\<open>int nn = ((nof_elmts_-1) + 7)/8; switch ( (nof_elmts_-1) % 8 ) { case 0: do { ...\<close>,
  in \<^verbatim>\<open>unsigned int\<close> arithmetic. Label \<^verbatim>\<open>case 0\<close> stands before the first statement
  of the body, label \<^verbatim>\<open>case r\<close> before the last \<open>r\<close> statements.
\<close>

definition set_links :: "size_t \<Rightarrow> uint \<Rightarrow> memory \<times> ptr \<Rightarrow> memory \<times> ptr" where
  "set_links e n st =
     (let nn = uint (((n - 1) + 7) div 8);
          r = unat ((n - 1) mod 8)
      in duff_loop e (if r = 0 then 8 else r) nn st)"

text \<open>
  The loop the unrolled one replaces (the \<^verbatim>\<open>#if 0\<close> branch of \<^verbatim>\<open>grow\<close>, and the
  specification's words): block \<open>i\<close> is linked to block \<open>i + 1\<close> for each
  \<open>i < nof_elmts_ - 1\<close>, so the link statement runs \<open>nof_elmts_ - 1\<close> times.
\<close>

definition set_links_baseline :: "size_t \<Rightarrow> uint \<Rightarrow> memory \<times> ptr \<Rightarrow> memory \<times> ptr" where
  "set_links_baseline e n st = (set_link e ^^ (unat n - 1)) st"

text \<open>\<^verbatim>\<open>grow\<close>. \<open>heap\<close> is the heap's answer should \<^verbatim>\<open>allocate_chunk\<close> ask.\<close>

definition grow ::
  "config \<Rightarrow> fb_alloc \<times> world \<Rightarrow> ptr option \<Rightarrow> (unit, fb_alloc \<times> world) outcome" where
  "grow cfg s heap =
     (case s of (h, w) \<Rightarrow>
        if refcount_m h = None \<or> nof_allocs_m h = None then Throws_bad_alloc (h, w)
        else
          (case allocate_chunk cfg h w heap of
             Aborts f \<Rightarrow> Aborts f
           | Throws_bad_alloc w1 \<Rightarrow> Throws_bad_alloc (h, w1)
           | Returns start w1 \<Rightarrow>
               let m1 = store64 (mem w1) (start + elsize_m h * ucast (nof_elmts_m h))
                          (chunk_head_m h);
                   h1 = h\<lparr>chunk_head_m := start\<rparr>;
                   (m2, p) = set_links (elsize_m h) (nof_elmts_m h) (m1, start);
                   m3 = store64 m2 p 0
               in Returns () (h1\<lparr>pool_head_m := start\<rparr>, w1\<lparr>mem := m3\<rparr>)))"

section \<open>Walking the chunk list\<close>

text \<open>
  The loop of \<^verbatim>\<open>clean\<close>; \<open>off\<close> is \<^verbatim>\<open>elsize_*nof_elmts_\<close>, the place of a chunk's
  link to the next chunk. The loop follows links read from memory and need not end; a run
  that does not end is \<open>None\<close>.
\<close>

partial_function (option) clean_loop ::
  "config \<Rightarrow> size_t \<Rightarrow> ptr \<Rightarrow> world \<Rightarrow> (fault + world) option" where
  "clean_loop cfg off p w =
     (if p \<noteq> 0
      then
        (let next = load64 (mem w) (p + off)
         in case deallocate_chunk cfg w p of
              Inl f \<Rightarrow> Some (Inl f)
            | Inr w' \<Rightarrow> clean_loop cfg off next w')
      else Some (Inr w))"

text \<open>\<^verbatim>\<open>clean\<close>.\<close>

definition clean :: "config \<Rightarrow> fb_alloc \<times> world \<Rightarrow> (fault + fb_alloc \<times> world) option" where
  "clean cfg s =
     (case s of (h, w) \<Rightarrow>
        (case clean_loop cfg (elsize_m h * ucast (nof_elmts_m h)) (chunk_head_m h) w of
           None \<Rightarrow> None
         | Some (Inl f) \<Rightarrow> Some (Inl f)
         | Some (Inr w') \<Rightarrow> Some (Inr (h\<lparr>pool_head_m := 0, chunk_head_m := 0\<rparr>, w'))))"

text \<open>
  The loop of \<^verbatim>\<open>check\<close>; \<open>lim\<close> is \<^verbatim>\<open>(nof_elmts_-1)*elsize_\<close>. The comparisons are
  those of the pointers as unsigned words.
\<close>

partial_function (option) check_loop ::
  "memory \<Rightarrow> size_t \<Rightarrow> size_t \<Rightarrow> ptr \<Rightarrow> ptr \<Rightarrow> bool option" where
  "check_loop m off lim p pob =
     (if p \<noteq> 0
      then
        (if pob \<ge> p \<and> pob \<le> p + lim then Some True
         else check_loop m off lim (load64 m (p + off)) pob)
      else Some False)"

text \<open>\<^verbatim>\<open>check\<close>.\<close>

definition check :: "fb_alloc \<Rightarrow> world \<Rightarrow> ptr \<Rightarrow> bool option" where
  "check h w p =
     check_loop (mem w) (elsize_m h * ucast (nof_elmts_m h))
       (ucast (nof_elmts_m h - 1) * elsize_m h) (chunk_head_m h) p"

section \<open>Allocation and deallocation\<close>

text \<open>
  \<^verbatim>\<open>allocate\<close>. \<open>heap\<close> is the heap's answer to the one request the call may make: the new
  chunk of \<^verbatim>\<open>grow\<close> when \<open>n = 1\<close>, \<^verbatim>\<open>::operator new (n*sizeof(T))\<close> otherwise.
\<close>

definition allocate ::
  "config \<Rightarrow> fb_alloc \<times> world \<Rightarrow> size_t \<Rightarrow> ptr option \<Rightarrow> (ptr, fb_alloc \<times> world) outcome"
  where
  "allocate cfg s n heap =
     (case s of (h, w) \<Rightarrow>
        if n = 1
        then
          (case (if pool_head_m h = 0 then grow cfg (h, w) heap else Returns () (h, w)) of
             Aborts f \<Rightarrow> Aborts f
           | Throws_bad_alloc s' \<Rightarrow> Throws_bad_alloc s'
           | Returns _ (h1, w1) \<Rightarrow>
               let res = pool_head_m h1;
                   h2 = h1\<lparr>pool_head_m := load64 (mem w1) res\<rparr>
               in (case add_int w1 (nof_allocs_m h2) 1 of
                     Inl f \<Rightarrow> Aborts f
                   | Inr (v, w2) \<Rightarrow>
                       if \<not> assert cfg (sint v > 0) then Aborts Assertion_failed
                       else Returns res (h2, w2)))
        else
          (case heap of
             None \<Rightarrow> Throws_bad_alloc (h, w)
           | Some p \<Rightarrow> Returns p (h, w\<lparr>heap_log := heap_log w @ [(n * sizeof_T cfg, p)]\<rparr>)))"

text \<open>
  \<^verbatim>\<open>deallocate\<close>. \<^verbatim>\<open>assert( check(p) )\<close> runs the loop of \<^verbatim>\<open>check\<close> only when
  assertions are compiled in.
\<close>

definition deallocate ::
  "config \<Rightarrow> fb_alloc \<times> world \<Rightarrow> ptr \<Rightarrow> size_t \<Rightarrow> (unit, fb_alloc \<times> world) outcome option"
  where
  "deallocate cfg s p n =
     (case s of (h, w) \<Rightarrow>
        if n = 1
        then
          (case (if NDEBUG cfg then Some True else check h w p) of
             None \<Rightarrow> None
           | Some False \<Rightarrow> Some (Aborts Assertion_failed)
           | Some True \<Rightarrow>
               let m' = store64 (mem w) p (pool_head_m h);
                   h' = h\<lparr>pool_head_m := p\<rparr>
               in (case add_int (w\<lparr>mem := m'\<rparr>) (nof_allocs_m h') (- 1) of
                     Inl f \<Rightarrow> Some (Aborts f)
                   | Inr (v, w') \<Rightarrow>
                       if \<not> assert cfg (sint v \<ge> 0) then Some (Aborts Assertion_failed)
                       else Some (Returns () (h', w'))))
        else Some (Returns () (h, w\<lparr>heap_freed := heap_freed w @ [p]\<rparr>)))"

section \<open>Release and destruction\<close>

text \<open>\<^verbatim>\<open>release\<close>.\<close>

definition release ::
  "config \<Rightarrow> fb_alloc \<times> world \<Rightarrow> (unit, fb_alloc \<times> world) outcome option" where
  "release cfg s =
     (case s of (h, w) \<Rightarrow>
        if refcount_m h \<noteq> None
        then
          (case add_int w (refcount_m h) (- 1) of
             Inl f \<Rightarrow> Some (Aborts f)
           | Inr (v, w1) \<Rightarrow>
               if \<not> assert cfg (sint v \<ge> 0) then Some (Aborts Assertion_failed)
               else if v = 0
               then
                 (case clean cfg (h, w1) of
                    None \<Rightarrow> None
                  | Some (Inl f) \<Rightarrow> Some (Aborts f)
                  | Some (Inr (h2, w2)) \<Rightarrow>
                      (case write_int w2 (refcount_m h2) 1 of
                         Inl f \<Rightarrow> Some (Aborts f)
                       | Inr w3 \<Rightarrow>
                           (case write_int w3 (nof_allocs_m h2) 0 of
                              Inl f \<Rightarrow> Some (Aborts f)
                            | Inr w4 \<Rightarrow> Some (Returns () (h2, w4)))))
               else Some (Returns () (h, w1)))
        else Some (Returns () (h, w)))"

text \<open>\<^verbatim>\<open>~fb_alloc\<close>. The object is gone afterwards; the world is what remains.\<close>

definition fb_alloc_dtor :: "config \<Rightarrow> fb_alloc \<times> world \<Rightarrow> (unit, world) outcome option" where
  "fb_alloc_dtor cfg s =
     (case s of (h, w) \<Rightarrow>
        if refcount_m h \<noteq> None
        then
          (case add_int w (refcount_m h) (- 1) of
             Inl f \<Rightarrow> Some (Aborts f)
           | Inr (v, w1) \<Rightarrow>
               if \<not> assert cfg (sint v \<ge> 0) then Some (Aborts Assertion_failed)
               else if v = 0
               then
                 (case clean cfg (h, w1) of
                    None \<Rightarrow> None
                  | Some (Inl f) \<Rightarrow> Some (Aborts f)
                  | Some (Inr (h2, w2)) \<Rightarrow>
                      (case delete_int w2 (refcount_m h2) of
                         Inl f \<Rightarrow> Some (Aborts f)
                       | Inr w3 \<Rightarrow>
                           (case delete_int w3 (nof_allocs_m h2) of
                              Inl f \<Rightarrow> Some (Aborts f)
                            | Inr w4 \<Rightarrow> Some (Returns () w4))))
               else Some (Returns () w1))
        else Some (Returns () w))"

section \<open>Observing outcomes and the initial process\<close>

definition returned :: "('a, 's) outcome \<Rightarrow> 'a option" where
  "returned r = (case r of Returns x _ \<Rightarrow> Some x | _ \<Rightarrow> None)"

definition state_after :: "('a, 's) outcome \<Rightarrow> 's option" where
  "state_after r = (case r of Returns _ s \<Rightarrow> Some s | Throws_bad_alloc s \<Rightarrow> Some s | _ \<Rightarrow> None)"

text \<open>
  The process at start-up: the static members are zero-initialised, no \<^verbatim>\<open>int\<close> has been
  made, the heap has served nothing. The bytes of memory are taken to be zero.
\<close>

definition world0 :: world where
  "world0 = \<lparr>mem = (\<lambda>_. 0), ints = Map.empty,
             statics_of = (\<lambda>_. \<lparr>global_chunk_head = 0, nof_allocated_chunks = 0,
                                  nof_free_chunks = 0\<rparr>),
             heap_log = [], heap_freed = []\<rparr>"

section \<open>Configurations used in the examples\<close>

definition cfg13 :: config where
  "cfg13 = \<lparr>T_name = ''T13'', sizeof_T = 13, nof_elements = 100, alignment = 8,
             NDEBUG = False\<rparr>"

definition cfg_wide :: config where
  "cfg_wide = \<lparr>T_name = ''char'', sizeof_T = 1, nof_elements = 100, alignment = - 1,
                NDEBUG = False\<rparr>"

definition cfg_int :: config where
  "cfg_int = \<lparr>T_name = ''int'', sizeof_T = 4, nof_elements = 100, alignment = 8,
               NDEBUG = False\<rparr>"

text \<open>The object and the world that \<^verbatim>\<open>fb_alloc<int,100,8> a;\<close> leaves at start-up.\<close>

definition h_int :: fb_alloc where
  "h_int = \<lparr>nof_elmts_m = 100, elsize_m = 8, alignment_m = 8, pool_head_m = 0,
             chunk_head_m = 0, refcount_m = Some 0, nof_allocs_m = Some 1\<rparr>"

definition w_int :: world where
  "w_int = world0\<lparr>ints := [0 \<mapsto> 1, 1 \<mapsto> 0]\<rparr>"

section \<open>Sequences of calls on one object\<close>

datatype call =
  Allocate size_t "ptr option"
  | Deallocate ptr size_t
  | Release

text \<open>
  The state a call leaves when the program goes on after it: after a return, and after a
  \<^verbatim>\<open>bad_alloc\<close> that the caller catches. There is none when the process dies or the call
  does not end.
\<close>

definition do_call :: "config \<Rightarrow> fb_alloc \<times> world \<Rightarrow> call \<Rightarrow> (fb_alloc \<times> world) option" where
  "do_call cfg s c =
     (case c of
        Allocate n heap \<Rightarrow> state_after (allocate cfg s n heap)
      | Deallocate p n \<Rightarrow> Option.bind (deallocate cfg s p n) state_after
      | Release \<Rightarrow> Option.bind (release cfg s) state_after)"

fun run :: "config \<Rightarrow> fb_alloc \<times> world \<Rightarrow> call list \<Rightarrow> (fb_alloc \<times> world) option" where
  "run cfg s [] = Some s"
| "run cfg s (c # cs) = (case do_call cfg s c of None \<Rightarrow> None | Some s' \<Rightarrow> run cfg s' cs)"

definition cfg2 :: config where
  "cfg2 = \<lparr>T_name = ''long'', sizeof_T = 8, nof_elements = 2, alignment = 8,
            NDEBUG = False\<rparr>"

text \<open>The object and the world that \<^verbatim>\<open>fb_alloc<long,2,8> a;\<close> leaves at start-up.\<close>

definition h2 :: fb_alloc where
  "h2 = \<lparr>nof_elmts_m = 2, elsize_m = 8, alignment_m = 8, pool_head_m = 0,
          chunk_head_m = 0, refcount_m = Some 0, nof_allocs_m = Some 1\<rparr>"

text \<open>
  The object that \<^verbatim>\<open>fb_alloc<T13,100,8> b(a);\<close> leaves when \<open>a\<close> has another block size
  and both \<^verbatim>\<open>new (std::nothrow) int\<close> fail.
\<close>

definition h_null :: fb_alloc where
  "h_null = \<lparr>nof_elmts_m = 100, elsize_m = 16, alignment_m = 8, pool_head_m = 0,
              chunk_head_m = 0, refcount_m = None, nof_allocs_m = None\<rparr>"

definition cfg1 :: config where
  "cfg1 = \<lparr>T_name = ''long'', sizeof_T = 8, nof_elements = 1, alignment = 8,
            NDEBUG = False\<rparr>"

text \<open>The object that \<^verbatim>\<open>fb_alloc<long,1,8> a;\<close> leaves at start-up.\<close>

definition h1 :: fb_alloc where
  "h1 = \<lparr>nof_elmts_m = 1, elsize_m = 8, alignment_m = 8, pool_head_m = 0,
          chunk_head_m = 0, refcount_m = Some 0, nof_allocs_m = Some 1\<rparr>"

text \<open>
  Successive calls of \<^verbatim>\<open>allocate(1)\<close> that all return, with the heap's answer for each
  call; the addresses returned, in order, and the state left.
\<close>

fun allocate_seq ::
  "config \<Rightarrow> fb_alloc \<times> world \<Rightarrow> ptr option list \<Rightarrow> (ptr list \<times> fb_alloc \<times> world) option"
  where
  "allocate_seq cfg s [] = Some ([], s)"
| "allocate_seq cfg s (heap # heaps) =
     (case allocate cfg s 1 heap of
        Returns p s' \<Rightarrow>
          (case allocate_seq cfg s' heaps of
             Some (ps, s'') \<Rightarrow> Some (p # ps, s'')
           | None \<Rightarrow> None)
      | _ \<Rightarrow> None)"

section \<open>Linked chunks in memory\<close>

text \<open>
  \<open>chunk_chain m off p cs\<close>: following, from \<open>p\<close>, the link that each chunk holds at offset
  \<open>off\<close> visits the chunks \<open>cs\<close> in order and then reaches null. With
  \<open>off = elsize_*nof_elmts_\<close> and \<open>p = chunk_head_\<close> this is the chunk list of an object,
  with \<open>off = 0\<close> and \<open>p = global_chunk_head_\<close> the global chunk list.
\<close>

inductive chunk_chain :: "memory \<Rightarrow> size_t \<Rightarrow> ptr \<Rightarrow> ptr list \<Rightarrow> bool" where
  chain_null: "chunk_chain m off 0 []"
| chain_link: "p \<noteq> 0 \<Longrightarrow> chunk_chain m off (load64 m (p + off)) cs \<Longrightarrow> chunk_chain m off p (p # cs)"

text \<open>The state after the first \<^verbatim>\<open>allocate(1)\<close> on a fresh \<^verbatim>\<open>fb_alloc<long,2,8>\<close>.\<close>

definition s2_one :: "fb_alloc \<times> world" where
  "s2_one = the (state_after (allocate cfg2 (h2, w_int) 1 (Some 4096)))"

text \<open>
  Two buffers of \<open>sz\<close> bytes at \<open>a\<close> and \<open>b\<close> do not overlap: going up from either start,
  the other start is at least \<open>sz\<close> bytes away (distances as unsigned words).
\<close>

definition buffers_apart :: "size_t \<Rightarrow> ptr \<Rightarrow> ptr \<Rightarrow> bool" where
  "buffers_apart sz a b \<longleftrightarrow> sz \<le> b - a \<and> sz \<le> a - b"

text \<open>The chunks \<open>cs\<close>, each of \<open>sz\<close> bytes, are pairwise disjoint buffers.\<close>

fun disjoint_chunks :: "size_t \<Rightarrow> ptr list \<Rightarrow> bool" where
  "disjoint_chunks sz [] = True"
| "disjoint_chunks sz (c # cs) = ((\<forall>d\<in>set cs. buffers_apart sz c d) \<and> disjoint_chunks sz cs)"

text \<open>
  The state after three \<^verbatim>\<open>allocate(1)\<close> on a fresh \<^verbatim>\<open>fb_alloc<long,2,8>\<close>: the heap gave
  the chunks at 4096 and at 8192.
\<close>

definition s2_three :: "fb_alloc \<times> world" where
  "s2_three = snd (the (allocate_seq cfg2 (h2, w_int) [Some 4096, None, Some 8192]))"


section \<open>A process with several allocator objects\<close>

text \<open>
  The objects a program has constructed, each with the instantiation it belongs to; a
  destroyed object leaves its slot empty.
\<close>

record process =
  objects :: "(config \<times> fb_alloc) option list"
  pworld :: world

definition process0 :: process where
  "process0 = \<lparr>objects = [], pworld = world0\<rparr>"

text \<open>
  What a program does with its objects. \<open>Construct\<close> is \<^verbatim>\<open>fb_alloc<T,n,a> x;\<close>. \<open>Share cfg i\<close>
  is \<^verbatim>\<open>fb_alloc<T,n,a> y(x);\<close> where \<open>x\<close> is object \<open>i\<close>, of the instantiation for
  another element type \<open>U\<close> with the same \<open>n\<close> and \<open>a\<close>: the case in which the member-template
  constructor is the one called. \<open>Copy i\<close> is \<^verbatim>\<open>fb_alloc<T,n,a> y(x);\<close> where \<open>x\<close> is object \<open>i\<close>
  and has the same type \<^verbatim>\<open>fb_alloc<T,n,a>\<close>: the implicitly defined copy constructor is the
  one called.
\<close>

datatype event =
  Construct config "nat option" "nat option"
  | Share config nat "nat option" "nat option"
  | Copy nat
  | Destroy nat
  | Call nat call

text \<open>
  The heap's contract for \<^verbatim>\<open>new int\<close>: the \<^verbatim>\<open>int\<close>s it hands out are not live, and two
  handed out in a row are different.
\<close>

definition fresh_ints :: "world \<Rightarrow> nat option \<Rightarrow> nat option \<Rightarrow> bool" where
  "fresh_ints w new1 new2 \<longleftrightarrow>
     (case new1 of None \<Rightarrow> True | Some c1 \<Rightarrow> ints w c1 = None)
     \<and> (case new2 of None \<Rightarrow> True | Some c2 \<Rightarrow> ints w c2 = None \<and> new1 \<noteq> Some c2)"

definition object_at :: "process \<Rightarrow> nat \<Rightarrow> (config \<times> fb_alloc) option" where
  "object_at p i = (if i < length (objects p) then objects p ! i else None)"

text \<open>
  One event; \<open>None\<close> when the process dies or hangs in it, and when the event is none that a
  program can make (it names no live object, the template arguments do not fit, or the
  heap's answer breaks the heap's contract).
\<close>

definition step :: "process \<Rightarrow> event \<Rightarrow> process option" where
  "step p e =
     (case e of
        Construct cfg new1 new2 \<Rightarrow>
          if \<not> fresh_ints (pworld p) new1 new2 then None
          else
            (case fb_alloc_ctor cfg (pworld p) new1 new2 of
               Returns h w' \<Rightarrow> Some \<lparr>objects = objects p @ [Some (cfg, h)], pworld = w'\<rparr>
             | _ \<Rightarrow> None)
      | Share cfg i new1 new2 \<Rightarrow>
          (case object_at p i of
             None \<Rightarrow> None
           | Some (cfg_u, fba) \<Rightarrow>
               if \<not> fresh_ints (pworld p) new1 new2
                  \<or> T_name cfg = T_name cfg_u
                  \<or> nof_elements cfg \<noteq> nof_elements cfg_u
                  \<or> alignment cfg \<noteq> alignment cfg_u
               then None
               else
                 (case fb_alloc_copy_ctor cfg (pworld p) fba new1 new2 of
                    Returns h w' \<Rightarrow> Some \<lparr>objects = objects p @ [Some (cfg, h)], pworld = w'\<rparr>
                  | _ \<Rightarrow> None))
      | Copy i \<Rightarrow>
          (case object_at p i of
             None \<Rightarrow> None
           | Some (cfg, fba) \<Rightarrow>
               (case fb_alloc_implicit_copy (pworld p) fba of
                  Returns h w' \<Rightarrow> Some \<lparr>objects = objects p @ [Some (cfg, h)], pworld = w'\<rparr>
                | _ \<Rightarrow> None))
      | Destroy i \<Rightarrow>
          (case object_at p i of
             None \<Rightarrow> None
           | Some (cfg, h) \<Rightarrow>
               (case fb_alloc_dtor cfg (h, pworld p) of
                  Some (Returns _ w') \<Rightarrow> Some \<lparr>objects = (objects p)[i := None], pworld = w'\<rparr>
                | _ \<Rightarrow> None))
      | Call i c \<Rightarrow>
          (case object_at p i of
             None \<Rightarrow> None
           | Some (cfg, h) \<Rightarrow>
               (case do_call cfg (h, pworld p) c of
                  Some (h', w') \<Rightarrow>
                    Some \<lparr>objects = (objects p)[i := Some (cfg, h')], pworld = w'\<rparr>
                | None \<Rightarrow> None)))"

fun run_events :: "process \<Rightarrow> event list \<Rightarrow> process option" where
  "run_events p [] = Some p"
| "run_events p (e # es) = (case step p e of None \<Rightarrow> None | Some p' \<Rightarrow> run_events p' es)"

text \<open>The number of live objects whose \<^verbatim>\<open>refcount_\<close> is the \<^verbatim>\<open>int\<close> \<open>c\<close>.\<close>

definition shares :: "nat \<Rightarrow> (config \<times> fb_alloc) option \<Rightarrow> bool" where
  "shares c ob = (case ob of None \<Rightarrow> False | Some (cfg, h) \<Rightarrow> refcount_m h = Some c)"

definition count_refs :: "process \<Rightarrow> nat \<Rightarrow> nat" where
  "count_refs p c = length (filter (shares c) (objects p))"

text \<open>
  \<^verbatim>\<open>release()\<close> is called on an object only while no other object shares its counters
  (\<^verbatim>\<open>refcount()\<close> is at most 1).
\<close>

definition release_unshared :: "process \<Rightarrow> event \<Rightarrow> bool" where
  "release_unshared p e =
     (case e of
        Call i Release \<Rightarrow>
          (case object_at p i of
             None \<Rightarrow> True
           | Some (cfg, h) \<Rightarrow>
               (case refcount h (pworld p) of Inr k \<Rightarrow> k \<le> 1 | Inl _ \<Rightarrow> True))
      | _ \<Rightarrow> True)"

fun releases_unshared :: "process \<Rightarrow> event list \<Rightarrow> bool" where
  "releases_unshared p [] = True"
| "releases_unshared p (e # es) =
     (release_unshared p e
      \<and> (case step p e of None \<Rightarrow> True | Some p' \<Rightarrow> releases_unshared p' es))"

text \<open>The event is not a copy made by the implicitly defined copy constructor.\<close>

definition by_template :: "event \<Rightarrow> bool" where
  "by_template e = (case e of Copy _ \<Rightarrow> False | _ \<Rightarrow> True)"

text \<open>What \<^verbatim>\<open>refcount()\<close> returns on each object, slot by slot.\<close>

definition refcounts :: "process \<Rightarrow> (fault + int) option list" where
  "refcounts p = map (map_option (\<lambda>(cfg, h). refcount h (pworld p))) (objects p)"

definition cfg_a :: config where
  "cfg_a = \<lparr>T_name = ''A'', sizeof_T = 8, nof_elements = 2, alignment = 8, NDEBUG = False\<rparr>"

definition cfg_b :: config where
  "cfg_b = \<lparr>T_name = ''B'', sizeof_T = 8, nof_elements = 2, alignment = 8, NDEBUG = False\<rparr>"

section \<open>The counters of a group and the objects that hold them\<close>

text \<open>
  What an object slot holds on to: the two counter pointers of a live object, nothing for a
  destroyed one.
\<close>

type_synonym key = "(nat option \<times> nat option) option"

definition key_of :: "(config \<times> fb_alloc) option \<Rightarrow> key" where
  "key_of ob = map_option (\<lambda>(cfg, h). (refcount_m h, nof_allocs_m h)) ob"

text \<open>The number of slots whose \<^verbatim>\<open>refcount_\<close> is the \<^verbatim>\<open>int\<close> \<open>c\<close>.\<close>

definition cnt :: "key list \<Rightarrow> nat \<Rightarrow> nat" where
  "cnt ks c = length (filter (\<lambda>k. \<exists>a. k = Some (Some c, a)) ks)"

text \<open>
  The invariant of the counters: the \<^verbatim>\<open>int\<close> behind a \<^verbatim>\<open>refcount_\<close> is live and holds the
  number of objects pointing to it; the \<^verbatim>\<open>int\<close> behind a \<^verbatim>\<open>nof_allocs_\<close> is live and is
  nobody's \<^verbatim>\<open>refcount_\<close>; objects with the same \<^verbatim>\<open>nof_allocs_\<close> have the same
  \<^verbatim>\<open>refcount_\<close>.
\<close>

definition counters_inv :: "key list \<Rightarrow> (nat \<rightharpoonup> cint) \<Rightarrow> bool" where
  "counters_inv ks m \<longleftrightarrow>
     (\<forall>r a. Some (Some r, a) \<in> set ks \<longrightarrow> (\<exists>v. m r = Some v \<and> sint v = int (cnt ks r)))
     \<and> (\<forall>r a. Some (r, Some a) \<in> set ks \<longrightarrow> m a \<noteq> None \<and> cnt ks a = 0)
     \<and> (\<forall>r r' a. Some (r, Some a) \<in> set ks \<and> Some (r', Some a) \<in> set ks \<longrightarrow> r' = r)"

text \<open>
  \<^verbatim>\<open>fb_alloc<A,2,8> x; fb_alloc<B,2,8> y(x); fb_alloc<A,2,8> z(y);\<close> and then \<^verbatim>\<open>x\<close> is
  destroyed.
\<close>

definition es_shared :: "event list" where
  "es_shared = [Construct cfg_a (Some 0) (Some 1), Share cfg_b 0 None None, Share cfg_a 1 None None,
                Destroy 0]"

definition p_shared :: process where
  "p_shared = (case run_events process0 es_shared of Some p \<Rightarrow> p | None \<Rightarrow> process0)"

definition h_shared :: fb_alloc where
  "h_shared = (case object_at p_shared 1 of Some (cfg, h) \<Rightarrow> h | None \<Rightarrow> h_null)"

section \<open>Further states used in the examples\<close>

text \<open>The state after the first \<^verbatim>\<open>allocate(1)\<close> on a fresh \<^verbatim>\<open>fb_alloc<long,1,8>\<close>.\<close>

definition s1_one :: "fb_alloc \<times> world" where
  "s1_one = the (state_after (allocate cfg1 (h1, w_int) 1 (Some 4096)))"

text \<open>The state after the first two \<^verbatim>\<open>allocate(1)\<close> on a fresh \<^verbatim>\<open>fb_alloc<long,1,8>\<close>.\<close>

definition s1_two :: "fb_alloc \<times> world" where
  "s1_two = snd (the (allocate_seq cfg1 (h1, w_int) [Some 4096, None]))"

text \<open>
  \<^verbatim>\<open>fb_alloc<A,2,8> x; p = x.allocate(1); x.deallocate(p, 1); fb_alloc<B,2,8> y(x);\<close> and
  then \<^verbatim>\<open>x\<close> is destroyed.
\<close>

definition es_cross :: "event list" where
  "es_cross = [Construct cfg_a (Some 0) (Some 1), Call 0 (Allocate 1 (Some 4096)),
               Call 0 (Deallocate 4096 1), Share cfg_b 0 None None, Destroy 0]"

text \<open>\<^verbatim>\<open>release()\<close> called on object \<open>i\<close> of a process.\<close>

definition release_at :: "process \<Rightarrow> nat \<Rightarrow> (unit, fb_alloc \<times> world) outcome option" where
  "release_at p i =
     (case object_at p i of None \<Rightarrow> None | Some (cfg, h) \<Rightarrow> release cfg (h, pworld p))"

text \<open>\<^verbatim>\<open>fb_alloc<T13,100,8>\<close> in a program compiled with \<^verbatim>\<open>NDEBUG\<close>.\<close>

definition cfg13_ndebug :: config where
  "cfg13_ndebug = \<lparr>T_name = ''T13'', sizeof_T = 13, nof_elements = 100, alignment = 8,
                    NDEBUG = True\<rparr>"

text \<open>
  The object and the world that \<^verbatim>\<open>fb_alloc<T13,100,8> b(a);\<close> leaves when \<open>a\<close> has another
  block size and the first \<^verbatim>\<open>new (std::nothrow) int\<close> fails (\<^verbatim>\<open>refcount_\<close> is null), the
  second does not.
\<close>

definition h_half :: fb_alloc where
  "h_half = \<lparr>nof_elmts_m = 100, elsize_m = 16, alignment_m = 8, pool_head_m = 0,
              chunk_head_m = 0, refcount_m = None, nof_allocs_m = Some 2\<rparr>"

definition w_half :: world where
  "w_half = w_int\<lparr>ints := [0 \<mapsto> 1, 1 \<mapsto> 0, 2 \<mapsto> 0]\<rparr>"

section \<open>Properties of the memory model\<close>

lemma bit_byte_of:
  "bit (push_bit (8 * k) (ucast (byte_of v k) :: 64 word)) n
     \<longleftrightarrow> 8 * k \<le> n \<and> n < 8 * k + 8 \<and> n < 64 \<and> bit v n"
  by (auto simp add: byte_of_def bit_push_bit_iff bit_ucast_iff bit_drop_bit_eq)

lemma bytes_recombine:
  "(ucast (byte_of v 0) OR push_bit 8 (ucast (byte_of v 1)) OR push_bit 16 (ucast (byte_of v 2))
     OR push_bit 24 (ucast (byte_of v 3)) OR push_bit 32 (ucast (byte_of v 4))
     OR push_bit 40 (ucast (byte_of v 5)) OR push_bit 48 (ucast (byte_of v 6))
     OR push_bit 56 (ucast (byte_of v 7))) = (v :: 64 word)"
proof (rule bit_word_eqI)
  fix n :: nat
  assume n: "n < LENGTH(64)"
  have b: "\<And>k. bit (push_bit (8 * k) (ucast (byte_of v k) :: 64 word)) n
             \<longleftrightarrow> 8 * k \<le> n \<and> n < 8 * k + 8 \<and> bit v n"
    using n by (simp add: bit_byte_of)
  have bs:
    "bit (ucast (byte_of v 0) :: 64 word) n \<longleftrightarrow> n < 8 \<and> bit v n"
    "bit (push_bit 8 (ucast (byte_of v 1)) :: 64 word) n \<longleftrightarrow> 8 \<le> n \<and> n < 16 \<and> bit v n"
    "bit (push_bit 16 (ucast (byte_of v 2)) :: 64 word) n \<longleftrightarrow> 16 \<le> n \<and> n < 24 \<and> bit v n"
    "bit (push_bit 24 (ucast (byte_of v 3)) :: 64 word) n \<longleftrightarrow> 24 \<le> n \<and> n < 32 \<and> bit v n"
    "bit (push_bit 32 (ucast (byte_of v 4)) :: 64 word) n \<longleftrightarrow> 32 \<le> n \<and> n < 40 \<and> bit v n"
    "bit (push_bit 40 (ucast (byte_of v 5)) :: 64 word) n \<longleftrightarrow> 40 \<le> n \<and> n < 48 \<and> bit v n"
    "bit (push_bit 48 (ucast (byte_of v 6)) :: 64 word) n \<longleftrightarrow> 48 \<le> n \<and> n < 56 \<and> bit v n"
    "bit (push_bit 56 (ucast (byte_of v 7)) :: 64 word) n \<longleftrightarrow> 56 \<le> n \<and> n < 64 \<and> bit v n"
    using b[of 0] b[of 1] b[of 2] b[of 3] b[of 4] b[of 5] b[of 6] b[of 7] by simp_all
  from n consider "n < 8" | "8 \<le> n \<and> n < 16" | "16 \<le> n \<and> n < 24" | "24 \<le> n \<and> n < 32"
    | "32 \<le> n \<and> n < 40" | "40 \<le> n \<and> n < 48" | "48 \<le> n \<and> n < 56" | "56 \<le> n \<and> n < 64"
    by (simp only: len_bit0 len_num1) linarith
  then show "bit (ucast (byte_of v 0) OR push_bit 8 (ucast (byte_of v 1))
     OR push_bit 16 (ucast (byte_of v 2))
     OR push_bit 24 (ucast (byte_of v 3)) OR push_bit 32 (ucast (byte_of v 4))
     OR push_bit 40 (ucast (byte_of v 5)) OR push_bit 48 (ucast (byte_of v 6))
     OR push_bit 56 (ucast (byte_of v 7)) :: 64 word) n = bit v n"
    by cases (simp_all only: bit_or_iff bs, simp_all)
qed

lemma load64_store64_same: "load64 (store64 m a v) a = v"
proof -
  have "load64 (store64 m a v) a =
     (ucast (byte_of v 0) OR push_bit 8 (ucast (byte_of v 1)) OR push_bit 16 (ucast (byte_of v 2))
     OR push_bit 24 (ucast (byte_of v 3)) OR push_bit 32 (ucast (byte_of v 4))
     OR push_bit 40 (ucast (byte_of v 5)) OR push_bit 48 (ucast (byte_of v 6))
     OR push_bit 56 (ucast (byte_of v 7)))"
    by (simp add: load64_def store64_def)
  then show ?thesis
    by (simp only: bytes_recombine)
qed

lemma store64_other_byte: "8 \<le> x - a \<Longrightarrow> store64 m a v x = m x"
  by (simp add: store64_def not_less [symmetric])

lemma apart_byte:
  assumes "apart a b" "k < 8"
  shows "8 \<le> b + k - a"
proof -
  have eq: "b + k - a = (b - a) + k" by simp
  have k: "unat k < 8" using assms(2) by (simp add: word_less_nat_alt)
  have lo: "8 \<le> unat (b - a)" and hi: "unat (b - a) \<le> 2 ^ 64 - 8"
    using assms(1) by (simp_all add: apart_def word_le_nat_alt)
  have "unat (b - a) + unat k < 2 ^ LENGTH(64)" using hi k by simp
  then have "unat ((b - a) + k) = unat (b - a) + unat k"
    by (rule unat_add_lem [THEN iffD1])
  with lo show ?thesis unfolding eq by (simp add: word_le_nat_alt)
qed

lemma load64_store64_apart:
  assumes "apart a b"
  shows "load64 (store64 m a v) b = load64 m b"
proof -
  have "\<And>k. k < 8 \<Longrightarrow> store64 m a v (b + k) = m (b + k)"
    by (rule store64_other_byte) (rule apart_byte [OF assms])
  from this [of 0] this [of 1] this [of 2] this [of 3] this [of 4] this [of 5] this [of 6]
    this [of 7]
  show ?thesis by (simp add: load64_def)
qed

section \<open>Element size (claim C2)\<close>

lemma least_multiple_spec:
  assumes "0 < a"
  shows "s \<le> least_multiple s a" "least_multiple s a mod a = 0"
    "\<And>k. s \<le> k \<Longrightarrow> k mod a = 0 \<Longrightarrow> least_multiple s a \<le> k"
proof -
  define q where "q = (s + a - 1) div a"
  define r where "r = (s + a - 1) mod a"
  have lm: "least_multiple s a = q * a" by (simp add: least_multiple_def q_def)
  have eq: "q * a + r = s + a - 1" by (simp add: q_def r_def)
  have r: "r < a" using assms by (simp add: r_def)
  from eq r assms show "s \<le> least_multiple s a" unfolding lm by linarith
  show "least_multiple s a mod a = 0" unfolding lm by simp
  fix k assume k: "s \<le> k" "k mod a = 0"
  define j where "j = k div a"
  have j: "k = j * a" using k(2) div_mult_mod_eq [of k a] by (simp add: j_def)
  have "q \<le> j"
  proof (rule ccontr)
    assume "\<not> q \<le> j"
    then have "Suc j \<le> q" by simp
    then have "Suc j * a \<le> q * a" by (rule mult_le_mono1)
    with eq have "j * a + a \<le> s + a - 1" by simp
    with k j assms show False by linarith
  qed
  then show "least_multiple s a \<le> k" unfolding lm j by (rule mult_le_mono1)
qed

lemma calc_elsize_unfold:
  "calc_elsize e a = (if e < e + a then (if e mod a = 0 then e else calc_elsize (e + 1) a) else e)"
  by (rule calc_elsize.simps)

declare calc_elsize.simps [simp del]

lemma calc_elsize_exact:
  fixes e a :: size_t
  assumes "a \<noteq> 0" "unat e \<le> m" "m mod unat a = 0"
    "\<forall>k. unat e \<le> k \<and> k < m \<longrightarrow> k mod unat a \<noteq> 0"
    "m = unat e \<or> m + unat a \<le> 2 ^ 64"
  shows "unat (calc_elsize e a) = m"
  using assms
proof (induction e a rule: calc_elsize.induct)
  case (1 e a)
  show ?case
  proof (cases "m = unat e")
    case True
    then have "e mod a = 0" using 1(4)
      by (metis unat_mod unat_eq_zero)
    then show ?thesis using True by (simp add: calc_elsize_unfold [of e a])
  next
    case False
    with 1 have lt: "unat e < m" and fit: "m + unat a \<le> 2 ^ 64" by auto
    have a0: "0 < unat a" using 1(2) by (simp add: unat_gt_0)
    have sum: "unat e + unat a < 2 ^ LENGTH(64)" using lt fit by simp
    then have "unat (e + a) = unat e + unat a" by (rule unat_add_lem [THEN iffD1])
    with a0 have g: "e < e + a" by (simp add: word_less_nat_alt)
    have "unat e mod unat a \<noteq> 0" using 1(5) lt by simp
    then have nz: "e mod a \<noteq> 0" by (metis unat_mod unat_0)
    have "unat e + 1 < 2 ^ LENGTH(64)" using sum a0 by simp
    then have s: "unat (e + 1) = Suc (unat e)" using unat_add_lem [of e 1] by simp
    have "unat (calc_elsize (e + 1) a) = m"
    proof (rule 1(1) [OF g nz 1(2)])
      show "unat (e + 1) \<le> m" using s lt by simp
      show "m mod unat a = 0" by (rule 1(4))
      show "\<forall>k. unat (e + 1) \<le> k \<and> k < m \<longrightarrow> k mod unat a \<noteq> 0" using 1(5) s by simp
      show "m = unat (e + 1) \<or> m + unat a \<le> 2 ^ 64" using fit by simp
    qed
    then show ?thesis using g nz by (simp add: calc_elsize_unfold [of e a])
  qed
qed

lemma calc_elsize_least_multiple:
  fixes s a :: size_t
  assumes "a \<noteq> 0"
    and "unat s mod unat a = 0 \<or> least_multiple (unat s) (unat a) + unat a \<le> 2 ^ 64"
  shows "unat (calc_elsize s a) = least_multiple (unat s) (unat a)"
proof (rule calc_elsize_exact [OF assms(1)])
  have a0: "0 < unat a" using assms(1) by (simp add: unat_gt_0)
  note lm = least_multiple_spec [OF a0, of "unat s"]
  show "unat s \<le> least_multiple (unat s) (unat a)" by (rule lm(1))
  show "least_multiple (unat s) (unat a) mod unat a = 0" by (rule lm(2))
  show "\<forall>k. unat s \<le> k \<and> k < least_multiple (unat s) (unat a) \<longrightarrow> k mod unat a \<noteq> 0"
    using lm(3) by (meson not_less)
  show "least_multiple (unat s) (unat a) = unat s
      \<or> least_multiple (unat s) (unat a) + unat a \<le> 2 ^ 64"
    using assms(2) lm(3) [of "unat s"] lm(1) by auto
qed

text \<open>
  Claim C2, as stated: for every native size \<open>s \<ge> 1\<close> and every alignment \<open>a \<ge> 1\<close> the
  constructor stores the smallest \<open>e \<ge> s\<close> with \<open>e mod a = 0\<close>. Counterexample: with
  \<^verbatim>\<open>sizeof(T) = 1\<close> and the largest \<^verbatim>\<open>size_t\<close> as alignment, the loop guard
  \<^verbatim>\<open>elsize_ < elsize_ + alignment_\<close> fails at once (the sum wraps to 0), the loop exits
  before its first test, and \<^verbatim>\<open>elsize()\<close> is 1, which is not a multiple of the alignment.
\<close>

theorem ctor_elsize_counterexample:
  "map_option elsize (returned (fb_alloc_ctor cfg_wide world0 (Some 0) (Some 1))) = Some 1
   \<and> unat (1 :: size_t) mod unat (alignment cfg_wide) \<noteq> 0"
  by (simp add: cfg_wide_def fb_alloc_ctor_def assert_def returned_def elsize_def Let_def
      calc_elsize_unfold [of 1 "- 1"] word_greater_zero_iff unsigned_minus_1_eq_mask mask_eq_exp_minus_1)

text \<open>
  Claim C2, amended: the element-size loop always terminates, and whenever the native size
  \<open>s \<ge> 1\<close> is already a multiple of the alignment \<open>a \<ge> 1\<close>, or the smallest multiple of
  \<open>a\<close> from \<open>s\<close> on, plus \<open>a\<close>, does not exceed \<open>2\<^sup>6\<^sup>4\<close> (the loop guard never meets a
  wrapped sum), the default constructor returns and \<^verbatim>\<open>elsize()\<close> is the smallest \<open>e \<ge> s\<close>
  with \<open>e mod a = 0\<close>.
\<close>

theorem ctor_elsize_least_multiple:
  assumes "sizeof_T cfg \<noteq> 0" and "alignment cfg \<noteq> 0" and "nof_elements cfg \<noteq> 0"
    and "unat (sizeof_T cfg) mod unat (alignment cfg) = 0
         \<or> least_multiple (unat (sizeof_T cfg)) (unat (alignment cfg)) + unat (alignment cfg)
             \<le> 2 ^ 64"
  shows "\<exists>h w'. fb_alloc_ctor cfg w (Some c1) (Some c2) = Returns h w'
           \<and> unat (sizeof_T cfg) \<le> unat (elsize h)
           \<and> unat (elsize h) mod unat (alignment cfg) = 0
           \<and> (\<forall>k. unat (sizeof_T cfg) \<le> k \<and> k mod unat (alignment cfg) = 0
                  \<longrightarrow> unat (elsize h) \<le> k)"
proof -
  have a0: "0 < unat (alignment cfg)" using assms(2) by (simp add: unat_gt_0)
  note lm = least_multiple_spec [OF a0, of "unat (sizeof_T cfg)"]
  have e: "unat (calc_elsize (sizeof_T cfg) (alignment cfg))
             = least_multiple (unat (sizeof_T cfg)) (unat (alignment cfg))"
    by (rule calc_elsize_least_multiple [OF assms(2) assms(4)])
  have pos: "0 < sizeof_T cfg" "0 < alignment cfg" "0 < nof_elements cfg"
    using assms(1-3) by (simp_all add: word_greater_zero_iff)
  show ?thesis
    using pos e lm by (simp add: fb_alloc_ctor_def assert_def elsize_def Let_def)
qed

text \<open>
  Claim C2, witness: \<^verbatim>\<open>sizeof(T) = 13\<close> and alignment 8 meet the hypotheses of the
  amended claim.
\<close>

theorem ctor_elsize_least_multiple_witness:
  "sizeof_T cfg13 \<noteq> 0 \<and> alignment cfg13 \<noteq> 0 \<and> nof_elements cfg13 \<noteq> 0
   \<and> least_multiple (unat (sizeof_T cfg13)) (unat (alignment cfg13)) + unat (alignment cfg13) \<le> 2 ^ 64
   \<and> (\<exists>h w'. fb_alloc_ctor cfg13 world0 (Some 0) (Some 1) = Returns h w'
           \<and> unat (sizeof_T cfg13) \<le> unat (elsize h)
           \<and> unat (elsize h) mod unat (alignment cfg13) = 0
           \<and> (\<forall>k. unat (sizeof_T cfg13) \<le> k \<and> k mod unat (alignment cfg13) = 0
                  \<longrightarrow> unat (elsize h) \<le> k))"
proof -
  have h: "sizeof_T cfg13 \<noteq> 0" "alignment cfg13 \<noteq> 0" "nof_elements cfg13 \<noteq> 0"
    "least_multiple (unat (sizeof_T cfg13)) (unat (alignment cfg13)) + unat (alignment cfg13) \<le> 2 ^ 64"
    by (simp_all add: cfg13_def least_multiple_def)
  show ?thesis
    using h ctor_elsize_least_multiple [OF h(1) h(2) h(3) disjI2 [OF h(4)], of world0 0 1]
    by blast
qed

section \<open>Bulk requests (claim C9)\<close>

lemma ctor_cfg_int: "fb_alloc_ctor cfg_int world0 (Some 0) (Some 1) = Returns h_int w_int"
  apply (simp add: fb_alloc_ctor_def cfg_int_def assert_def Let_def h_int_def w_int_def world0_def)
  apply (simp add: calc_elsize_unfold [of 4 8] calc_elsize_unfold [of 5 8] calc_elsize_unfold [of 6 8] calc_elsize_unfold [of 7 8] calc_elsize_unfold [of 8 8])
  done

text \<open>
  Claim C9, as stated: for \<open>n \<noteq> 1\<close>, \<^verbatim>\<open>allocate(n)\<close> asks the heap for \<open>n\<close> times the
  element size computed by the element size calculator. Counterexample: for
  \<^verbatim>\<open>fb_alloc<int,100,8>\<close> with \<^verbatim>\<open>sizeof(int) = 4\<close> the computed element size is 8, and
  \<^verbatim>\<open>allocate(2)\<close> asks the heap for 8 bytes, not 16.
\<close>

theorem allocate_bulk_counterexample:
  "fb_alloc_ctor cfg_int world0 (Some 0) (Some 1) = Returns h_int w_int
   \<and> allocate cfg_int (h_int, w_int) 2 (Some 4096)
       = Returns 4096 (h_int, w_int\<lparr>heap_log := [(8, 4096)]\<rparr>)
   \<and> 2 * elsize h_int = 16"
proof (intro conjI)
  show "fb_alloc_ctor cfg_int world0 (Some 0) (Some 1) = Returns h_int w_int"
    by (rule ctor_cfg_int)
  show "allocate cfg_int (h_int, w_int) 2 (Some 4096)
       = Returns 4096 (h_int, w_int\<lparr>heap_log := [(8, 4096)]\<rparr>)"
    by (simp add: allocate_def cfg_int_def w_int_def world0_def)
  show "2 * elsize h_int = 16"
    by (simp add: elsize_def h_int_def)
qed

text \<open>
  Claim C9, amended: for every \<open>n \<noteq> 1\<close>, \<^verbatim>\<open>allocate(n)\<close> bypasses the pool: it asks the
  process heap for \<^verbatim>\<open>n*sizeof(T)\<close> bytes (the native size of the element type, in
  \<^verbatim>\<open>size_t\<close> arithmetic), returns the heap's answer or lets its \<^verbatim>\<open>bad_alloc\<close> pass, and
  leaves the object (free-list head, chunk list), the counters, the memory and the static
  members (the global chunk list) as they were.
\<close>

theorem allocate_bulk_bypasses_pool:
  assumes "n \<noteq> 1"
  shows "allocate cfg (h, w) n (Some p)
           = Returns p (h, w\<lparr>heap_log := heap_log w @ [(n * sizeof_T cfg, p)]\<rparr>)
         \<and> allocate cfg (h, w) n None = Throws_bad_alloc (h, w)"
  using assms by (simp add: allocate_def)

text \<open>Claim C9, witness: \<^verbatim>\<open>allocate(2)\<close> on \<^verbatim>\<open>fb_alloc<int,100,8>\<close>.\<close>

theorem allocate_bulk_bypasses_pool_witness:
  "(2 :: size_t) \<noteq> 1
   \<and> allocate cfg_int (h_int, w_int) 2 (Some 4096)
       = Returns 4096 (h_int, w_int\<lparr>heap_log := heap_log w_int @ [(2 * sizeof_T cfg_int, 4096)]\<rparr>)
   \<and> allocate cfg_int (h_int, w_int) 2 None = Throws_bad_alloc (h_int, w_int)"
proof -
  have n: "(2 :: size_t) \<noteq> 1" by simp
  show ?thesis
    using n allocate_bulk_bypasses_pool [OF n, of cfg_int h_int w_int 4096] by simp
qed

section \<open>Returning a block and taking it again (claim C4)\<close>

lemma int_add_Inr:
  assumes "int_add v d = Inr v'"
  shows "v' = v + word_of_int d" "sint v' = sint v + d"
proof -
  from assms have r: "INT_MIN \<le> sint v + d" "sint v + d \<le> INT_MAX"
    and v': "v' = v + word_of_int d"
    by (auto simp: int_add_def split: if_splits)
  show "v' = v + word_of_int d" by (rule v')
  have "v' = word_of_int (sint v + d)" by (simp add: v')
  moreover have "sint (word_of_int k :: cint) = k" if "INT_MIN \<le> k" "k \<le> INT_MAX" for k
    using that by (simp add: sint_sbintrunc' signed_take_bit_int_eq_self INT_MIN_def INT_MAX_def)
  ultimately show "sint v' = sint v + d" using r by blast
qed

lemma sint_cint_range: "INT_MIN \<le> sint (v :: cint)" "sint (v :: cint) \<le> INT_MAX"
  using sint_ge [of v] sint_lt [of v] by (simp_all add: INT_MIN_def INT_MAX_def)

lemma add_int_Inr:
  assumes "add_int w p d = Inr (v, w')"
  shows "\<exists>c v0. p = Some c \<and> ints w c = Some v0 \<and> int_add v0 d = Inr v
        \<and> w' = w\<lparr>ints := (ints w)(c \<mapsto> v)\<rparr>"
  using assms by (auto simp: add_int_def split: option.splits sum.splits)

lemma allocate_chunk_nonnull:
  "allocate_chunk cfg h w heap = Returns p w' \<Longrightarrow> heap \<noteq> Some 0 \<Longrightarrow> p \<noteq> 0"
  by (auto simp: allocate_chunk_def Let_def split: sum.splits option.splits if_splits)

lemma grow_pool_head:
  "grow cfg s heap = Returns u (h', w') \<Longrightarrow> heap \<noteq> Some 0 \<Longrightarrow> pool_head_m h' \<noteq> 0"
  by (cases s) (auto simp: grow_def Let_def split: outcome.splits if_splits prod.splits
      dest: allocate_chunk_nonnull)

lemma allocate_nonnull:
  "allocate cfg s 1 heap = Returns p s' \<Longrightarrow> heap \<noteq> Some 0 \<Longrightarrow> p \<noteq> 0"
  by (cases s) (auto simp: allocate_def Let_def split: outcome.splits if_splits sum.splits prod.splits
      dest: grow_pool_head)

lemma deallocate_one_Returns:
  assumes "deallocate cfg (h, w) p 1 = Some (Returns u (h', w'))"
  shows "h' = h\<lparr>pool_head_m := p\<rparr>
         \<and> (\<exists>v. add_int (w\<lparr>mem := store64 (mem w) p (pool_head_m h)\<rparr>) (nof_allocs_m h) (- 1)
                  = Inr (v, w')
               \<and> assert cfg (sint v \<ge> 0))"
  using assms
  by (auto simp: deallocate_def Let_def split: option.splits bool.splits sum.splits if_splits)

text \<open>
  The round trip where \<^verbatim>\<open>deallocate\<close> returns: when a block \<open>p\<close> was obtained from
  \<^verbatim>\<open>allocate(1)\<close> (the heap hands out no null storage), then in every state in which
  \<^verbatim>\<open>deallocate(p, 1)\<close> returns, the next \<^verbatim>\<open>allocate(1)\<close> on the object returns the same
  address \<open>p\<close>, whatever the heap would answer.
\<close>

lemma deallocate_then_allocate_same:
  assumes "allocate cfg s0 1 heap0 = Returns p s1" and "heap0 \<noteq> Some 0"
    and "deallocate cfg s p 1 = Some (Returns () s')"
  shows "\<exists>s''. allocate cfg s' 1 heap = Returns p s''"
proof -
  have p: "p \<noteq> 0" by (rule allocate_nonnull [OF assms(1,2)])
  obtain h w where s: "s = (h, w)" by (cases s)
  obtain h' w' where s': "s' = (h', w')" by (cases s')
  define w1 where "w1 = w\<lparr>mem := store64 (mem w) p (pool_head_m h)\<rparr>"
  from deallocate_one_Returns [OF assms(3) [unfolded s s']]
  obtain v where h': "h' = h\<lparr>pool_head_m := p\<rparr>"
    and a: "add_int w1 (nof_allocs_m h) (- 1) = Inr (v, w')"
    and as: "assert cfg (sint v \<ge> 0)"
    unfolding w1_def by blast
  from add_int_Inr [OF a] obtain c v0 where c: "nof_allocs_m h = Some c"
    and v0: "ints w1 c = Some v0" and ia: "int_add v0 (- 1) = Inr v"
    and w': "w' = w1\<lparr>ints := (ints w1)(c \<mapsto> v)\<rparr>"
    by auto
  note v = int_add_Inr [OF ia]
  have inc: "int_add v 1 = Inr v0"
    using v sint_cint_range [of v0] by (simp add: int_add_def)
  have "add_int w' (Some c) 1 = Inr (v0, w'\<lparr>ints := (ints w')(c \<mapsto> v0)\<rparr>)"
    using inc by (simp add: add_int_def w')
  moreover have "assert cfg (sint v0 > 0)" using as v by (auto simp: assert_def)
  ultimately show ?thesis
    using p by (simp add: s' h' allocate_def c Let_def)
qed

lemma ctor_cfg2: "fb_alloc_ctor cfg2 world0 (Some 0) (Some 1) = Returns h2 w_int"
  by (simp add: fb_alloc_ctor_def cfg2_def assert_def Let_def h2_def w_int_def world0_def
      calc_elsize_unfold [of 8 8])

lemma check_loop_null: "check_loop m off lim 0 p = Some False"
  by (simp add: check_loop.simps)

lemma clean_loop_null: "clean_loop cfg off 0 w = Some (Inr w)"
  by (simp add: clean_loop.simps)

text \<open>
  An instance: on \<^verbatim>\<open>fb_alloc<long,2,8>\<close> the first \<^verbatim>\<open>allocate(1)\<close> returns the start 4096
  of the new chunk, \<^verbatim>\<open>deallocate(4096, 1)\<close> passes the check, and the next \<^verbatim>\<open>allocate(1)\<close>
  returns 4096 again.
\<close>

lemma deallocate_then_allocate_same_example:
  "\<exists>s1 s'. allocate cfg2 (h2, w_int) 1 (Some 4096) = Returns 4096 s1
       \<and> Some (4096 :: ptr) \<noteq> Some 0
       \<and> deallocate cfg2 s1 4096 1 = Some (Returns () s')
       \<and> (\<exists>s''. allocate cfg2 s' 1 None = Returns 4096 s'')"
proof -
  have "\<exists>s1 s'. allocate cfg2 (h2, w_int) 1 (Some 4096) = Returns 4096 s1
       \<and> deallocate cfg2 s1 4096 1 = Some (Returns () s')"
    apply (simp add: allocate_def grow_def allocate_chunk_def cfg2_def h2_def w_int_def world0_def
        int_add_def INT_MIN_def INT_MAX_def Let_def set_links_def set_link_def sizeof_ptr_def
        add_int_def assert_def duff_loop.simps)
    apply (simp add: deallocate_def check_def check_loop.simps add_int_def int_add_def INT_MIN_def INT_MAX_def assert_def Let_def)
    done
  then obtain s1 s' where a: "allocate cfg2 (h2, w_int) 1 (Some 4096) = Returns 4096 s1"
    and d: "deallocate cfg2 s1 4096 1 = Some (Returns () s')"
    by blast
  have n: "Some (4096 :: ptr) \<noteq> Some 0" by simp
  from deallocate_then_allocate_same [OF a n d, of None] a n d show ?thesis by blast
qed

section \<open>Objects with null counters (claim C10)\<close>

lemma do_call_null_counters:
  assumes "refcount_m h = None \<or> nof_allocs_m h = None"
    and "pool_head_m h = 0" and "chunk_head_m h = 0"
    and "NDEBUG cfg \<longrightarrow> nof_allocs_m h = None \<or> (\<forall>p. c \<noteq> Deallocate p 1)"
    and "do_call cfg (h, w) c = Some (h', w')"
  shows "h' = h"
proof (cases c)
  case (Allocate n heap)
  with assms show ?thesis
    by (auto simp: do_call_def allocate_def grow_def state_after_def split: if_splits option.splits)
next
  case (Deallocate p n)
  show ?thesis
  proof (cases "n = 1")
    case False
    with assms Deallocate show ?thesis
      by (auto simp: do_call_def deallocate_def state_after_def)
  next
    case True
    show ?thesis
    proof (cases "NDEBUG cfg")
      case False
      with assms True Deallocate show ?thesis
        by (simp add: do_call_def deallocate_def check_def check_loop_null state_after_def)
    next
      case ndebug: True
      with assms(4) True Deallocate have "nof_allocs_m h = None" by auto
      with assms True Deallocate ndebug show ?thesis
        by (simp add: do_call_def deallocate_def add_int_def state_after_def Let_def)
    qed
  qed
next
  case Release
  have h0: "h\<lparr>pool_head_m := 0, chunk_head_m := 0\<rparr> = h"
    using assms(2,3) by simp
  show ?thesis
  proof (cases "refcount_m h")
    case None
    with assms Release show ?thesis
      by (simp add: do_call_def release_def state_after_def)
  next
    case (Some r)
    with assms(1) have n: "nof_allocs_m h = None" by simp
    from assms(5) Release Some n assms(3) h0 show ?thesis
      by (auto simp: do_call_def release_def state_after_def clean_def clean_loop_null
          write_int_def
          split: sum.splits if_splits option.splits prod.splits)
  qed
qed

text \<open>
  Claim C10, amended: an object with a null counter, an empty free list and an empty chunk
  list (as the member-template constructor leaves it when \<^verbatim>\<open>new (std::nothrow) int\<close> fails) keeps
  all its data members through every sequence of calls, so its free list stays empty, and
  every \<^verbatim>\<open>allocate(1)\<close> throws \<^verbatim>\<open>bad_alloc\<close> in the state it found: no chunk is
  acquired, the free list, the chunk list and the global chunk list are unchanged. The
  calls are \<^verbatim>\<open>allocate\<close>, \<^verbatim>\<open>deallocate\<close> and \<^verbatim>\<open>release\<close>; when assertions are compiled
  out and \<^verbatim>\<open>nof_allocs_\<close> is not null, \<^verbatim>\<open>deallocate(p, 1)\<close> is left out (the object has
  handed out no block that could be returned).
\<close>

theorem null_counters_allocate_throws:
  assumes "refcount_m h = None \<or> nof_allocs_m h = None"
    and "pool_head_m h = 0" and "chunk_head_m h = 0"
    and "NDEBUG cfg \<longrightarrow> nof_allocs_m h = None \<or> (\<forall>p. Deallocate p 1 \<notin> set cs)"
    and "run cfg (h, w) cs = Some (h', w')"
  shows "h' = h \<and> (\<forall>heap. allocate cfg (h', w') 1 heap = Throws_bad_alloc (h', w'))"
proof -
  have "h' = h" using assms(4,5)
  proof (induction cs arbitrary: w)
    case Nil
    then show ?case by simp
  next
    case (Cons c cs)
    from Cons.prems(2) obtain h1 w1 where st: "do_call cfg (h, w) c = Some (h1, w1)"
      and rest: "run cfg (h1, w1) cs = Some (h', w')"
      by (auto split: option.splits)
    have "NDEBUG cfg \<longrightarrow> nof_allocs_m h = None \<or> (\<forall>p. c \<noteq> Deallocate p 1)"
      using Cons.prems(1) by auto
    from do_call_null_counters [OF assms(1-3) this st] have h1: "h1 = h" .
    have "NDEBUG cfg \<longrightarrow> nof_allocs_m h = None \<or> (\<forall>p. Deallocate p 1 \<notin> set cs)"
      using Cons.prems(1) by auto
    from Cons.IH [OF this rest [unfolded h1]] show ?case .
  qed
  moreover have "allocate cfg (h, w') 1 heap = Throws_bad_alloc (h, w')" for heap
    using assms(1,2) by (auto simp: allocate_def grow_def)
  ultimately show ?thesis by simp
qed

lemma copy_ctor_null:
  "fb_alloc_copy_ctor cfg13 w_int h_int None None = Returns h_null w_int"
  apply (simp add: fb_alloc_copy_ctor_def cfg13_def h_int_def h_null_def assert_def Let_def)
  apply (simp add: calc_elsize_unfold [of 13 8] calc_elsize_unfold [of 14 8]
      calc_elsize_unfold [of 15 8] calc_elsize_unfold [of 16 8])
  done

text \<open>
  Claim C10, witness: the object left by the member-template constructor when both
  \<^verbatim>\<open>new (std::nothrow) int\<close> fail, through \<^verbatim>\<open>allocate(1)\<close>, \<^verbatim>\<open>allocate(3)\<close> and
  \<^verbatim>\<open>release()\<close>.
\<close>

theorem null_counters_allocate_throws_witness:
  "fb_alloc_copy_ctor cfg13 w_int h_int None None = Returns h_null w_int
   \<and> (refcount_m h_null = None \<or> nof_allocs_m h_null = None)
   \<and> pool_head_m h_null = 0 \<and> chunk_head_m h_null = 0
   \<and> \<not> NDEBUG cfg13 \<and> nof_allocs_m h_null = None
   \<and> run cfg13 (h_null, w_int) [Allocate 1 (Some 4096), Allocate 3 (Some 8192), Release]
       = Some (h_null, w_int\<lparr>heap_log := [(39, 8192)]\<rparr>)
   \<and> (\<forall>heap. allocate cfg13 (h_null, w_int\<lparr>heap_log := [(39, 8192)]\<rparr>) 1 heap
         = Throws_bad_alloc (h_null, w_int\<lparr>heap_log := [(39, 8192)]\<rparr>))"
proof -
  have a: "refcount_m h_null = None \<or> nof_allocs_m h_null = None"
    and b: "pool_head_m h_null = 0" and c: "chunk_head_m h_null = 0"
    and d: "NDEBUG cfg13 \<longrightarrow> nof_allocs_m h_null = None
         \<or> (\<forall>p. Deallocate p 1 \<notin> set [Allocate 1 (Some 4096), Allocate 3 (Some 8192), Release])"
    by (simp_all add: h_null_def)
  have r: "run cfg13 (h_null, w_int) [Allocate 1 (Some 4096), Allocate 3 (Some 8192), Release]
       = Some (h_null, w_int\<lparr>heap_log := [(39, 8192)]\<rparr>)"
    by (simp add: do_call_def allocate_def grow_def release_def state_after_def h_null_def
        cfg13_def w_int_def world0_def)
  have e: "\<not> NDEBUG cfg13" "nof_allocs_m h_null = None"
    by (simp_all add: cfg13_def h_null_def)
  from null_counters_allocate_throws [OF a b c d r] copy_ctor_null a b c e r
  show ?thesis by simp
qed

section \<open>Linking the blocks of a new chunk (claim C1)\<close>

lemma ctor_cfg1: "fb_alloc_ctor cfg1 world0 (Some 0) (Some 1) = Returns h1 w_int"
  by (simp add: fb_alloc_ctor_def cfg1_def assert_def Let_def h1_def w_int_def world0_def
      calc_elsize_unfold [of 8 8])

lemma set_links_one: "set_links e 1 st = (set_link e ^^ 8) st"
  by (simp add: set_links_def duff_loop.simps [of e 8 0] Let_def)

lemma set_links_baseline_one: "set_links_baseline e 1 st = st"
  by (simp add: set_links_baseline_def)

lemma snd_set_link_funpow: "snd ((set_link e ^^ k) (m, p)) = p + of_nat k * e"
  by (induction k) (simp_all add: set_link_def split_beta algebra_simps)

text \<open>
  Claim C1 at \<open>nof_elements = 1\<close>: \<^verbatim>\<open>fb_alloc<long,1,8>\<close> has chunks of 16 bytes, one
  block and the link to the previous chunk. The \<^verbatim>\<open>switch\<close> enters the unrolled loop at
  \<^verbatim>\<open>case 0\<close> with \<open>nn = 0\<close>, so the link statement runs eight times where the loop it
  replaces runs it not at all. After \<^verbatim>\<open>grow\<close> on a chunk at 4096 the only block is linked to
  4104 instead of null, the chunk's link to the previous chunk (at 4104) is overwritten with
  4112, and links are written up to 4160, beyond the chunk, which ends at 4112.
\<close>

theorem grow_single_block_overrun:
  "fb_alloc_ctor cfg1 world0 (Some 0) (Some 1) = Returns h1 w_int
   \<and> snd (set_links e 1 (m, p)) = p + 8 * e
   \<and> snd (set_links_baseline e 1 (m, p)) = p
   \<and> map_option (\<lambda>(h, w). (pool_head_m h, chunksize h, load64 (mem w) 4096, load64 (mem w) 4104,
                     load64 (mem w) 4112, load64 (mem w) 4152, load64 (mem w) 4160))
        (state_after (grow cfg1 (h1, w_int) (Some 4096)))
       = Some (4096, 16, 4104, 4112, 4120, 4160, 0)"
proof (intro conjI)
  show "fb_alloc_ctor cfg1 world0 (Some 0) (Some 1) = Returns h1 w_int" by (rule ctor_cfg1)
  show "snd (set_links e 1 (m, p)) = p + 8 * e"
    using snd_set_link_funpow [where k = 8 and e = e and m = m and p = p] by (simp add: set_links_one)
  show "snd (set_links_baseline e 1 (m, p)) = p" by (simp add: set_links_baseline_one)
  show "map_option (\<lambda>(h, w). (pool_head_m h, chunksize h, load64 (mem w) 4096, load64 (mem w) 4104,
                     load64 (mem w) 4112, load64 (mem w) 4152, load64 (mem w) 4160))
        (state_after (grow cfg1 (h1, w_int) (Some 4096)))
       = Some (4096, 16, 4104, 4112, 4120, 4160, 0)"
    apply (simp add: grow_def allocate_chunk_def cfg1_def h1_def w_int_def world0_def
        int_add_def INT_MIN_def INT_MAX_def Let_def set_links_one sizeof_ptr_def state_after_def chunksize_def)
    apply (simp add: set_link_def numeral_eq_Suc)
    apply (simp add: load64_def store64_def memset0_def byte_of_def)
    done
qed

lemma duff_loop_funpow:
  "duff_loop e k nn st = (set_link e ^^ (k + 8 * nat (nn - 1))) st"
proof (induction e k nn st rule: duff_loop.induct)
  case (1 e k nn st)
  show ?case
  proof (cases "nn - 1 > 0")
    case True
    then have n: "8 + 8 * nat (nn - 1 - 1) = 8 * nat (nn - 1)" by simp
    have "duff_loop e k nn st = duff_loop e 8 (nn - 1) ((set_link e ^^ k) st)"
      using True by (subst duff_loop.simps) (simp add: Let_def)
    also have "\<dots> = (set_link e ^^ (8 + 8 * nat (nn - 1 - 1))) ((set_link e ^^ k) st)"
      using True by (rule 1 [OF refl refl])
    also have "\<dots> = (set_link e ^^ (8 * nat (nn - 1) + k)) st"
      unfolding n by (simp add: funpow_add)
    also have "8 * nat (nn - 1) + k = k + 8 * nat (nn - 1)" by simp
    finally show ?thesis .
  next
    case False
    then show ?thesis by (subst duff_loop.simps) (simp add: Let_def)
  qed
qed

text \<open>
  With at least two blocks in a chunk (and \<^verbatim>\<open>(nof_elmts_-1) + 7\<close> not wrapping in
  \<^verbatim>\<open>unsigned int\<close>) the unrolled loop runs the link statement as often as the loop it
  replaces.
\<close>

lemma set_links_eq_baseline:
  assumes "2 \<le> unat n" and "unat n \<le> 2 ^ 32 - 7"
  shows "set_links e n st = set_links_baseline e n st"
proof -
  define k where "k = unat (n - 1)"
  have k: "k = unat n - 1" using assms(1) unfolding k_def by (simp add: unat_sub word_le_nat_alt)
  have ub: "unat n \<le> 4294967289" using assms(2) by simp
  have k1: "1 \<le> k" "k + 7 < 4294967296" using assms(1) ub unfolding k by linarith+
  have "unat ((n - 1) + 7) = k + 7"
    using k1(2) unfolding k_def by (subst unat_add_lem [THEN iffD1]) simp_all
  then have nn: "uint (((n - 1) + 7) div 8) = int ((k + 7) div 8)"
    by (simp add: uint_nat unat_div)
  have r: "unat ((n - 1) mod 8) = k mod 8"
    by (simp add: unat_mod k_def)
  define q where "q = k div 8"
  define r' where "r' = k mod 8"
  have kq: "k = 8 * q + r'" unfolding q_def r'_def by presburger
  have d: "(k + 7) div 8 = (if r' = 0 then q else Suc q)" unfolding q_def r'_def by presburger
  have q1: "r' = 0 \<Longrightarrow> 1 \<le> q" using k1(1) unfolding q_def r'_def by presburger
  have tot: "(if k mod 8 = 0 then 8 else k mod 8) + 8 * nat (int ((k + 7) div 8) - 1) = k"
  proof (cases "r' = 0")
    case True
    with q1 have "8 + 8 * nat (int q - 1) = 8 * q" by simp
    with True show ?thesis unfolding d r'_def [symmetric] by (simp add: kq)
  next
    case False
    have "nat (int (Suc q) - 1) = q" by simp
    with False show ?thesis unfolding d r'_def [symmetric] by (simp add: kq)
  qed
  have "set_links e n st
          = duff_loop e (if k mod 8 = 0 then 8 else k mod 8) (int ((k + 7) div 8)) st"
    unfolding set_links_def Let_def nn r by (rule refl)
  also have "\<dots> = (set_link e ^^ k) st"
    unfolding duff_loop_funpow tot by (rule refl)
  also have "\<dots> = set_links_baseline e n st"
    unfolding set_links_baseline_def k by (rule refl)
  finally show ?thesis .
qed


section \<open>Successive allocations (claim C3)\<close>

text \<open>
  Claim C3 at \<open>nof_elements = 1\<close>: on a fresh \<^verbatim>\<open>fb_alloc<long,1,8>\<close> ten calls of
  \<^verbatim>\<open>allocate(1)\<close> return. The first chunk, of 16 bytes at 4096, yields nine addresses, eight
  of them outside the chunk; the tenth call grows again, the heap answers with the 16 bytes
  at 4112, disjoint from the first chunk, and 4112 is returned a second time.
  \<^verbatim>\<open>nof_allocs()\<close> is 10.
\<close>

theorem allocate_single_block_repeats:
  "map_option (\<lambda>(ps, h, w). (ps, distinct ps, nof_allocs h w, heap_log w))
     (allocate_seq cfg1 (h1, w_int)
        [Some 4096, None, None, None, None, None, None, None, None, Some 4112])
   = Some ([4096, 4104, 4112, 4120, 4128, 4136, 4144, 4152, 4160, 4112], False, Inr 10,
           [(16, 4096), (16, 4112)])"
  by code_simp

section \<open>The containment check (claim C8)\<close>

lemmas eval_defs =
  allocate_def grow_def allocate_chunk_def w_int_def world0_def int_add_def INT_MIN_def
  INT_MAX_def Let_def set_links_def set_link_def sizeof_ptr_def add_int_def assert_def
  duff_loop.simps state_after_def

lemma check_loop_chain:
  assumes "chunk_chain m off p cs"
  shows "check_loop m off lim p pob = Some (\<exists>c\<in>set cs. c \<le> pob \<and> pob \<le> c + lim)"
  using assms
proof (induction rule: chunk_chain.induct)
  case (chain_null m off)
  show ?case by (simp add: check_loop.simps)
next
  case (chain_link p m off cs)
  show ?case
    using chain_link.hyps(1) chain_link.IH by (subst check_loop.simps) auto
qed

text \<open>
  Claim C8, amended: when the chunk list of an object is a null-terminated chain of chunks,
  \<^verbatim>\<open>check(p)\<close> returns, and it returns true exactly when \<open>p\<close> lies between the start of
  some chunk of the list and the start of that chunk's last block
  (\<open>c \<le> p \<le> c + (nof_elmts_-1)*elsize_\<close>). So every pointer outside these ranges fails the
  check, whether or not \<^verbatim>\<open>allocate\<close> returned it, and every pointer inside one passes.
\<close>

theorem check_iff_in_registered_chunk:
  assumes "chunk_chain (mem w) (elsize_m h * ucast (nof_elmts_m h)) (chunk_head_m h) cs"
  shows "check h w p
           = Some (\<exists>c\<in>set cs. c \<le> p \<and> p \<le> c + ucast (nof_elmts_m h - 1) * elsize_m h)"
  unfolding check_def by (rule check_loop_chain [OF assms])

text \<open>
  Claim C8, as stated: a pointer never returned by \<^verbatim>\<open>allocate(1)\<close> fails the check.
  Counterexample: on a fresh \<^verbatim>\<open>fb_alloc<long,2,8>\<close> one \<^verbatim>\<open>allocate(1)\<close> returns 4096;
  the block at 4104 is still on the free list and was never returned, and \<^verbatim>\<open>check(4104)\<close>
  is true.
\<close>

theorem check_counterexample:
  "map_option (\<lambda>(ps, h, w). (ps, check h w 4104)) (allocate_seq cfg2 (h2, w_int) [Some 4096])
     = Some ([4096], Some True)"
  apply (simp add: eval_defs cfg2_def h2_def)
  apply (simp add: check_def check_loop.simps)
  done

lemma s2_one_fields:
  "chunk_head_m (fst s2_one) = 4096" "elsize_m (fst s2_one) = 8" "nof_elmts_m (fst s2_one) = 2"
  "load64 (mem (snd s2_one)) 4112 = 0"
  by (simp_all add: s2_one_def eval_defs cfg2_def h2_def load64_store64_same
      load64_store64_apart apart_def)

text \<open>
  Claim C8, witness: after the first \<^verbatim>\<open>allocate(1)\<close> on \<^verbatim>\<open>fb_alloc<long,2,8>\<close> the chunk
  list is the one chunk at 4096; 4104 passes the check and 4105 fails it.
\<close>

theorem check_iff_in_registered_chunk_witness:
  "chunk_chain (mem (snd s2_one)) (elsize_m (fst s2_one) * ucast (nof_elmts_m (fst s2_one)))
      (chunk_head_m (fst s2_one)) [4096]
   \<and> check (fst s2_one) (snd s2_one) 4104 = Some True
   \<and> check (fst s2_one) (snd s2_one) 4105 = Some False"
proof -
  have c: "chunk_chain (mem (snd s2_one)) (elsize_m (fst s2_one) * ucast (nof_elmts_m (fst s2_one)))
      (chunk_head_m (fst s2_one)) [4096]"
    by (simp add: s2_one_fields chain_link chain_null)
  from check_iff_in_registered_chunk [OF c, of 4104] check_iff_in_registered_chunk [OF c, of 4105] c
  show ?thesis by (simp add: s2_one_fields)
qed

section \<open>Retiring the chunks of an object (claim C7)\<close>

lemma unat_diff_cases:
  fixes a b :: ptr
  shows "unat (b - a) = (if unat a \<le> unat b then unat b - unat a else unat b + 2 ^ 64 - unat a)"
  using unat_sub_if_size [of b a] by (simp add: word_size)

lemma buffers_apart_fields:
  assumes "buffers_apart (off + 8) a b" and "unat off + 8 < 2 ^ 64"
  shows "apart a b" and "apart b a" and "apart a (b + off)"
proof -
  have s: "unat (off + 8) = unat off + 8"
    using assms(2) by (subst unat_add_lem [THEN iffD1]) simp_all
  have 1: "unat off + 8 \<le> unat (b - a)" and 2: "unat off + 8 \<le> unat (a - b)"
    using assms(1) by (simp_all add: buffers_apart_def word_le_nat_alt s)
  have ua: "unat a < 2 ^ 64" and ub: "unat b < 2 ^ 64"
    using unsigned_less [of a] unsigned_less [of b] by simp_all
  have m8: "unat (- 8 :: ptr) = 2 ^ 64 - 8" by simp
  show "apart a b"
    unfolding apart_def word_le_nat_alt m8
    using 1 2 ua ub by (simp add: unat_diff_cases split: if_splits)
  show "apart b a"
    unfolding apart_def word_le_nat_alt m8
    using 1 2 ua ub by (simp add: unat_diff_cases split: if_splits)
  have e: "b + off - a = (b - a) + off" by simp
  have "unat (b - a) + unat off < 2 ^ 64"
    using 1 2 ua ub by (simp add: unat_diff_cases split: if_splits)
  then have "unat ((b - a) + off) = unat (b - a) + unat off"
    by (subst unat_add_lem [THEN iffD1]) simp_all
  then show "apart a (b + off)"
    unfolding apart_def word_le_nat_alt m8 e
    using 1 2 ua ub by (simp add: unat_diff_cases split: if_splits)
qed


lemma chunk_chain_store:
  assumes "chunk_chain m off p cs" and "\<forall>d\<in>set cs. apart a (d + off)"
  shows "chunk_chain (store64 m a v) off p cs"
  using assms
proof (induction rule: chunk_chain.induct)
  case (chain_null m off)
  show ?case by (rule chunk_chain.chain_null)
next
  case (chain_link p m off cs)
  have "load64 (store64 m a v) (p + off) = load64 m (p + off)"
    using chain_link.prems by (simp add: load64_store64_apart)
  with chain_link show ?case
    by (simp add: chunk_chain.chain_link)
qed

lemma chunk_chain_cases:
  "chunk_chain m off p (c # cs) \<Longrightarrow> p = c \<and> c \<noteq> 0 \<and> chunk_chain m off (load64 m (c + off)) cs"
  "chunk_chain m off p [] \<Longrightarrow> p = 0"
  by (auto elim: chunk_chain.cases)

lemma disjoint_chunks_append_Cons:
  "disjoint_chunks sz (c # cs @ gs) \<Longrightarrow> disjoint_chunks sz (cs @ c # gs)"
proof (induction cs)
  case Nil
  then show ?case by simp
next
  case (Cons d cs)
  have sym: "\<And>x y. buffers_apart sz x y \<Longrightarrow> buffers_apart sz y x"
    by (auto simp: buffers_apart_def)
  from Cons.prems have "disjoint_chunks sz (c # cs @ gs)" by auto
  from Cons.IH [OF this] Cons.prems sym show ?case by auto
qed

lemma deallocate_chunk_ok:
  assumes "sint (nof_free_chunks (statics_of w cfg)) < INT_MAX"
    and "NDEBUG cfg \<or> sint (nof_free_chunks (statics_of w cfg))
                         < sint (nof_allocated_chunks (statics_of w cfg))"
  shows "deallocate_chunk cfg w p =
           Inr (w\<lparr>mem := store64 (mem w) p (global_chunk_head (statics_of w cfg)),
                   statics_of := (statics_of w)
                     (cfg := (statics_of w cfg)\<lparr>global_chunk_head := p,
                        nof_free_chunks := nof_free_chunks (statics_of w cfg) + 1\<rparr>)\<rparr>)
         \<and> sint (nof_free_chunks (statics_of w cfg) + 1)
              = sint (nof_free_chunks (statics_of w cfg)) + 1"
proof -
  let ?nf = "nof_free_chunks (statics_of w cfg)"
  have r: "INT_MIN \<le> sint ?nf + 1" "sint ?nf + 1 \<le> INT_MAX"
    using assms(1) sint_cint_range(1) [of ?nf] by simp_all
  then have ia: "int_add ?nf 1 = Inr (?nf + 1)" by (simp add: int_add_def)
  from int_add_Inr(2) [OF ia] have s: "sint (?nf + 1) = sint ?nf + 1" .
  show ?thesis
    using assms(2) ia s by (auto simp: deallocate_chunk_def Let_def assert_def)
qed

lemma clean_loop_retires:
  assumes "chunk_chain (mem w) off p cs"
    and "chunk_chain (mem w) 0 (global_chunk_head (statics_of w cfg)) gs"
    and "disjoint_chunks (off + 8) (cs @ gs)" and "unat off + 8 < 2 ^ 64"
    and "sint (nof_free_chunks (statics_of w cfg)) + int (length cs) \<le> INT_MAX"
    and "NDEBUG cfg \<or> sint (nof_free_chunks (statics_of w cfg)) + int (length cs)
                         \<le> sint (nof_allocated_chunks (statics_of w cfg))"
  shows "\<exists>w'. clean_loop cfg off p w = Some (Inr w')
          \<and> chunk_chain (mem w') 0 (global_chunk_head (statics_of w' cfg)) (rev cs @ gs)
          \<and> sint (nof_free_chunks (statics_of w' cfg))
               = sint (nof_free_chunks (statics_of w cfg)) + int (length cs)
          \<and> nof_allocated_chunks (statics_of w' cfg) = nof_allocated_chunks (statics_of w cfg)
          \<and> ints w' = ints w \<and> heap_log w' = heap_log w \<and> heap_freed w' = heap_freed w
          \<and> (\<forall>c. c \<noteq> cfg \<longrightarrow> statics_of w' c = statics_of w c)"
  using assms
proof (induction cs arbitrary: p w gs rule: list.induct)
  case Nil
  then have "p = 0" by (simp add: chunk_chain_cases)
  with Nil show ?case by (simp add: clean_loop.simps)
next
  case (Cons c cs)
  let ?st = "statics_of w cfg"
  from Cons.prems(1) have p: "p = c" "c \<noteq> 0"
    and nx: "chunk_chain (mem w) off (load64 (mem w) (c + off)) cs"
    by (simp_all add: chunk_chain_cases)
  define w1 where "w1 = w\<lparr>mem := store64 (mem w) c (global_chunk_head ?st),
                   statics_of := (statics_of w)
                     (cfg := ?st\<lparr>global_chunk_head := c,
                        nof_free_chunks := nof_free_chunks ?st + 1\<rparr>)\<rparr>"
  have "sint (nof_free_chunks ?st) < INT_MAX" using Cons.prems(5) by simp
  moreover have "NDEBUG cfg \<or> sint (nof_free_chunks ?st) < sint (nof_allocated_chunks ?st)"
    using Cons.prems(6) by auto
  ultimately have dc: "deallocate_chunk cfg w c = Inr w1"
    and nf1: "sint (nof_free_chunks ?st + 1) = sint (nof_free_chunks ?st) + 1"
    using deallocate_chunk_ok [of w cfg c] unfolding w1_def by simp_all
  have ap: "\<forall>d\<in>set (cs @ gs). buffers_apart (off + 8) c d"
    using Cons.prems(3) by simp
  have a1: "\<forall>d\<in>set cs. apart c (d + off)"
    using ap buffers_apart_fields(3) [OF _ Cons.prems(4)] by auto
  have a2: "\<forall>g\<in>set gs. apart c (g + 0)"
    using ap buffers_apart_fields(1) [OF _ Cons.prems(4)] by auto
  have st1: "statics_of w1 cfg = ?st\<lparr>global_chunk_head := c,
                        nof_free_chunks := nof_free_chunks ?st + 1\<rparr>"
    by (simp add: w1_def)
  have m1: "mem w1 = store64 (mem w) c (global_chunk_head ?st)" by (simp add: w1_def)
  have c1: "chunk_chain (mem w1) off (load64 (mem w) (c + off)) cs"
    unfolding m1 by (rule chunk_chain_store [OF nx a1])
  have "chunk_chain (mem w1) 0 (global_chunk_head ?st) gs"
    unfolding m1 by (rule chunk_chain_store [OF Cons.prems(2) a2])
  then have "chunk_chain (mem w1) 0 c (c # gs)"
    using p(2) by (intro chain_link) (simp_all add: m1 load64_store64_same)
  then have c2: "chunk_chain (mem w1) 0 (global_chunk_head (statics_of w1 cfg)) (c # gs)"
    by (simp add: st1)
  have d1: "disjoint_chunks (off + 8) (cs @ c # gs)"
    using disjoint_chunks_append_Cons [of "off + 8" c cs gs] Cons.prems(3) by simp
  have n1: "sint (nof_free_chunks (statics_of w1 cfg)) + int (length cs) \<le> INT_MAX"
    using Cons.prems(5) nf1 by (simp add: st1)
  have n2: "NDEBUG cfg \<or> sint (nof_free_chunks (statics_of w1 cfg)) + int (length cs)
                         \<le> sint (nof_allocated_chunks (statics_of w1 cfg))"
    using Cons.prems(6) nf1 by (auto simp add: st1)
  from Cons.IH [OF c1 c2 d1 Cons.prems(4) n1 n2]
  obtain w' where r: "clean_loop cfg off (load64 (mem w) (c + off)) w1 = Some (Inr w')"
    and k: "chunk_chain (mem w') 0 (global_chunk_head (statics_of w' cfg)) (rev cs @ c # gs)"
       "sint (nof_free_chunks (statics_of w' cfg))
               = sint (nof_free_chunks (statics_of w1 cfg)) + int (length cs)"
       "nof_allocated_chunks (statics_of w' cfg) = nof_allocated_chunks (statics_of w1 cfg)"
       "ints w' = ints w1" "heap_log w' = heap_log w1" "heap_freed w' = heap_freed w1"
       "\<forall>c. c \<noteq> cfg \<longrightarrow> statics_of w' c = statics_of w1 c"
    by blast
  have "clean_loop cfg off p w = Some (Inr w')"
    using p dc r by (subst clean_loop.simps) (simp add: Let_def)
  moreover have "\<forall>c. c \<noteq> cfg \<longrightarrow> statics_of w1 c = statics_of w c" by (simp add: w1_def)
  ultimately show ?case
    using k nf1 by (simp add: st1 w1_def)
qed


text \<open>
  What \<^verbatim>\<open>release\<close> does on a well-formed chunk list whose chunks the instantiation has
  counted. Let the counters of an object be two distinct live \<^verbatim>\<open>int\<close>s with
  \<^verbatim>\<open>refcount() == 1\<close>, let its chunk list be the chain \<open>cs\<close> and the global chunk list the
  chain \<open>gs\<close>, all of them pairwise disjoint buffers of \<^verbatim>\<open>chunksize()\<close> bytes that does
  not wrap, and let the count of free chunks have room for \<open>cs\<close> (below \<open>INT_MAX\<close> and, with
  assertions on, below the count of allocated chunks). Then \<^verbatim>\<open>release()\<close> returns; every
  chunk of \<open>cs\<close> is on the global chunk list afterwards (which is \<open>rev cs @ gs\<close>, the count of
  free chunks raised by the length of \<open>cs\<close>); free-list head and chunk-list head are null;
  \<^verbatim>\<open>nof_allocs()\<close> is 0 and \<^verbatim>\<open>refcount()\<close> is 1; the object still holds its two counters,
  which are still live.
\<close>

lemma release_retires_all_chunks:
  assumes "refcount_m h = Some r" and "nof_allocs_m h = Some a" and "r \<noteq> a"
    and "ints w r = Some 1" and "ints w a = Some v"
    and "chunk_chain (mem w) (elsize_m h * ucast (nof_elmts_m h)) (chunk_head_m h) cs"
    and "chunk_chain (mem w) 0 (global_chunk_head (statics_of w cfg)) gs"
    and "disjoint_chunks (chunksize h) (cs @ gs)"
    and "unat (elsize_m h * ucast (nof_elmts_m h)) + 8 < 2 ^ 64"
    and "sint (nof_free_chunks (statics_of w cfg)) + int (length cs) \<le> INT_MAX"
    and "NDEBUG cfg \<or> sint (nof_free_chunks (statics_of w cfg)) + int (length cs)
                         \<le> sint (nof_allocated_chunks (statics_of w cfg))"
  shows "\<exists>h' w'. release cfg (h, w) = Some (Returns () (h', w'))
           \<and> pool_head_m h' = 0 \<and> chunk_head_m h' = 0
           \<and> refcount h' w' = Inr 1 \<and> nof_allocs h' w' = Inr 0
           \<and> refcount_m h' = Some r \<and> nof_allocs_m h' = Some a
           \<and> chunk_chain (mem w') 0 (global_chunk_head (statics_of w' cfg)) (rev cs @ gs)
           \<and> sint (nof_free_chunks (statics_of w' cfg))
                = sint (nof_free_chunks (statics_of w cfg)) + int (length cs)"
proof -
  let ?off = "elsize_m h * ucast (nof_elmts_m h)"
  define w1 where "w1 = w\<lparr>ints := (ints w)(r \<mapsto> 0)\<rparr>"
  have dec: "add_int w (Some r) (- 1) = Inr (0, w1)"
    using assms(4) by (simp add: add_int_def int_add_def INT_MIN_def INT_MAX_def w1_def)
  have d: "disjoint_chunks (?off + 8) (cs @ gs)"
    using assms(8) by (simp add: chunksize_def sizeof_ptr_def)
  have "\<exists>w'. clean_loop cfg ?off (chunk_head_m h) w1 = Some (Inr w')
          \<and> chunk_chain (mem w') 0 (global_chunk_head (statics_of w' cfg)) (rev cs @ gs)
          \<and> sint (nof_free_chunks (statics_of w' cfg))
               = sint (nof_free_chunks (statics_of w1 cfg)) + int (length cs)
          \<and> nof_allocated_chunks (statics_of w' cfg) = nof_allocated_chunks (statics_of w1 cfg)
          \<and> ints w' = ints w1 \<and> heap_log w' = heap_log w1 \<and> heap_freed w' = heap_freed w1
          \<and> (\<forall>c. c \<noteq> cfg \<longrightarrow> statics_of w' c = statics_of w1 c)"
    using assms(6,7,10,11) d assms(9)
    by (intro clean_loop_retires) (simp_all add: w1_def)
  then obtain w2 where cl: "clean_loop cfg ?off (chunk_head_m h) w1 = Some (Inr w2)"
    and ch: "chunk_chain (mem w2) 0 (global_chunk_head (statics_of w2 cfg)) (rev cs @ gs)"
    and nf: "sint (nof_free_chunks (statics_of w2 cfg))
               = sint (nof_free_chunks (statics_of w cfg)) + int (length cs)"
    and i2: "ints w2 = ints w1"
    by (auto simp: w1_def)
  define h' where "h' = h\<lparr>pool_head_m := 0, chunk_head_m := 0\<rparr>"
  define w4 where "w4 = w2\<lparr>ints := (ints w2)(r \<mapsto> 1, a \<mapsto> 0)\<rparr>"
  have c: "clean cfg (h, w1) = Some (Inr (h', w2))"
    by (simp add: clean_def cl h'_def)
  have wr: "write_int w2 (Some r) 1 = Inr (w2\<lparr>ints := (ints w2)(r \<mapsto> 1)\<rparr>)"
    by (simp add: write_int_def i2 w1_def)
  have wa: "write_int (w2\<lparr>ints := (ints w2)(r \<mapsto> 1)\<rparr>) (Some a) 0 = Inr w4"
    using assms(3,5) by (simp add: write_int_def i2 w1_def w4_def)
  have "release cfg (h, w) = Some (Returns () (h', w4))"
    using assms(1,2) dec c wr wa by (simp add: release_def assert_def h'_def)
  moreover have "refcount h' w4 = Inr 1" "nof_allocs h' w4 = Inr 0"
    using assms(1,2,3) by (simp_all add: refcount_def nof_allocs_def h'_def w4_def)
  ultimately show ?thesis
    using ch nf assms(1,2) by (simp add: h'_def w4_def)
qed

lemma load64_memset0_outside:
  assumes "n \<le> b - pp" and "b - pp \<le> - 8"
  shows "load64 (memset0 m pp n) b = load64 m b"
proof -
  have m8: "unat (- 8 :: ptr) = 2 ^ 64 - 8" by simp
  have "memset0 m pp n (b + k) = m (b + k)" if "k < 8" for k
  proof -
    have e: "b + k - pp = (b - pp) + k" by simp
    have k: "unat k < 8" using that by (simp add: word_less_nat_alt)
    have "unat (b - pp) + unat k < 2 ^ 64"
      using assms(2) k unfolding word_le_nat_alt m8 by simp
    then have "unat ((b - pp) + k) = unat (b - pp) + unat k"
      by (subst unat_add_lem [THEN iffD1]) simp_all
    then have "n \<le> b + k - pp"
      using assms(1) unfolding e word_le_nat_alt by simp
    then show ?thesis by (simp add: memset0_def not_less [symmetric])
  qed
  from this [of 0] this [of 1] this [of 2] this [of 3] this [of 4] this [of 5] this [of 6]
    this [of 7]
  show ?thesis by (simp add: load64_def)
qed

lemma s2_three_fields:
  "chunk_head_m (fst s2_three) = 8192" "elsize_m (fst s2_three) = 8"
  "nof_elmts_m (fst s2_three) = 2" "pool_head_m (fst s2_three) = 8200"
  "refcount_m (fst s2_three) = Some 0" "nof_allocs_m (fst s2_three) = Some 1"
  "load64 (mem (snd s2_three)) 8208 = 4096" "load64 (mem (snd s2_three)) 4112 = 0"
  "ints (snd s2_three) 0 = Some 1" "ints (snd s2_three) 1 = Some 3"
  "statics_of (snd s2_three) cfg2
     = \<lparr>global_chunk_head = 0, nof_allocated_chunks = 2, nof_free_chunks = 0\<rparr>"
  by (simp_all add: s2_three_def eval_defs cfg2_def h2_def load64_store64_same
      load64_store64_apart apart_def load64_memset0_outside)

text \<open>
  An instance: \<^verbatim>\<open>fb_alloc<long,2,8>\<close> after three \<^verbatim>\<open>allocate(1)\<close>, with the chunks
  at 8192 and 4096 on its chunk list and an empty global chunk list.
\<close>

lemma release_retires_all_chunks_example:
  "refcount_m (fst s2_three) = Some 0 \<and> nof_allocs_m (fst s2_three) = Some 1 \<and> (0 :: nat) \<noteq> 1
   \<and> ints (snd s2_three) 0 = Some 1 \<and> ints (snd s2_three) 1 = Some 3
   \<and> chunk_chain (mem (snd s2_three))
         (elsize_m (fst s2_three) * ucast (nof_elmts_m (fst s2_three)))
         (chunk_head_m (fst s2_three)) [8192, 4096]
   \<and> chunk_chain (mem (snd s2_three)) 0 (global_chunk_head (statics_of (snd s2_three) cfg2)) []
   \<and> disjoint_chunks (chunksize (fst s2_three)) ([8192, 4096] @ [])
   \<and> (\<exists>h' w'. release cfg2 s2_three = Some (Returns () (h', w'))
           \<and> pool_head_m h' = 0 \<and> chunk_head_m h' = 0
           \<and> refcount h' w' = Inr 1 \<and> nof_allocs h' w' = Inr 0
           \<and> chunk_chain (mem w') 0 (global_chunk_head (statics_of w' cfg2)) [4096, 8192]
           \<and> sint (nof_free_chunks (statics_of w' cfg2)) = 2)"
proof -
  note f = s2_three_fields
  have c: "chunk_chain (mem (snd s2_three))
         (elsize_m (fst s2_three) * ucast (nof_elmts_m (fst s2_three)))
         (chunk_head_m (fst s2_three)) [8192, 4096]"
    by (simp add: f chain_link chain_null)
  have g: "chunk_chain (mem (snd s2_three)) 0
             (global_chunk_head (statics_of (snd s2_three) cfg2)) []"
    by (simp add: f chain_null)
  have d: "disjoint_chunks (chunksize (fst s2_three)) ([8192, 4096] @ [])"
    by (simp add: chunksize_def f sizeof_ptr_def buffers_apart_def)
  have n: "(0 :: nat) \<noteq> 1" by simp
  have u: "unat (elsize_m (fst s2_three) * ucast (nof_elmts_m (fst s2_three))) + 8 < 2 ^ 64"
    by (simp add: f)
  have i: "sint (nof_free_chunks (statics_of (snd s2_three) cfg2)) + int (length [8192 :: ptr, 4096])
             \<le> INT_MAX"
    by (simp add: f INT_MAX_def)
  have j: "NDEBUG cfg2 \<or> sint (nof_free_chunks (statics_of (snd s2_three) cfg2))
              + int (length [8192 :: ptr, 4096])
                 \<le> sint (nof_allocated_chunks (statics_of (snd s2_three) cfg2))"
    by (simp add: f)
  from release_retires_all_chunks [of "fst s2_three" 0 1 "snd s2_three" 3 "[8192, 4096]" cfg2 "[]",
      OF f(5) f(6) n f(9) f(10) c g d u i j]
  obtain h' w' where r: "release cfg2 (fst s2_three, snd s2_three) = Some (Returns () (h', w'))"
    "pool_head_m h' = 0" "chunk_head_m h' = 0" "refcount h' w' = Inr 1" "nof_allocs h' w' = Inr 0"
    "chunk_chain (mem w') 0 (global_chunk_head (statics_of w' cfg2)) (rev [8192, 4096] @ [])"
    "sint (nof_free_chunks (statics_of w' cfg2))
       = sint (nof_free_chunks (statics_of (snd s2_three) cfg2)) + int (length [8192 :: ptr, 4096])"
    by blast
  have "\<exists>h' w'. release cfg2 s2_three = Some (Returns () (h', w'))
           \<and> pool_head_m h' = 0 \<and> chunk_head_m h' = 0
           \<and> refcount h' w' = Inr 1 \<and> nof_allocs h' w' = Inr 0
           \<and> chunk_chain (mem w') 0 (global_chunk_head (statics_of w' cfg2)) [4096, 8192]
           \<and> sint (nof_free_chunks (statics_of w' cfg2)) = 2"
    using r by (intro exI [of _ h'] exI [of _ w']) (simp add: f(11))
  with f(5) f(6) n f(9) f(10) c g d show ?thesis by blast
qed

section \<open>Acquiring a chunk (claim C6)\<close>












section \<open>The reference count\<close>

lemma cnt_zero_iff: "cnt ks c = 0 \<longleftrightarrow> (\<forall>a. Some (Some c, a) \<notin> set ks)"
  by (auto simp: cnt_def filter_empty_conv)

lemma cnt_append: "cnt (ks @ [k]) c = cnt ks c + (if \<exists>a. k = Some (Some c, a) then 1 else 0)"
  by (simp add: cnt_def)

lemma filter_update_count:
  "i < length xs \<Longrightarrow>
     length (filter P (xs[i := y])) + (if P (xs ! i) then 1 else 0)
       = length (filter P xs) + (if P y then 1 else 0)"
proof (induction xs arbitrary: i)
  case Nil
  then show ?case by simp
next
  case (Cons x xs)
  then show ?case by (cases i) auto
qed

lemma cnt_update:
  "i < length ks \<Longrightarrow>
     cnt (ks[i := k]) c + (if \<exists>a. ks ! i = Some (Some c, a) then 1 else 0)
       = cnt ks c + (if \<exists>a. k = Some (Some c, a) then 1 else 0)"
  unfolding cnt_def by (rule filter_update_count)

lemma count_refs_cnt: "count_refs p c = cnt (map key_of (objects p)) c"
proof -
  have "shares c = (\<lambda>k. \<exists>a. k = Some (Some c, a)) \<circ> key_of"
    by (auto simp: shares_def key_of_def fun_eq_iff split: option.splits)
  then show ?thesis
    by (simp add: count_refs_def cnt_def filter_map)
qed

lemma invD1:
  "counters_inv ks m \<Longrightarrow> Some (Some r, a) \<in> set ks \<Longrightarrow> \<exists>v. m r = Some v \<and> sint v = int (cnt ks r)"
  unfolding counters_inv_def by blast

lemma invD2:
  "counters_inv ks m \<Longrightarrow> Some (r, Some a) \<in> set ks \<Longrightarrow> m a \<noteq> None \<and> cnt ks a = 0"
  unfolding counters_inv_def by blast

lemma invD3:
  "counters_inv ks m \<Longrightarrow> Some (r, Some a) \<in> set ks \<Longrightarrow> Some (r', Some a) \<in> set ks \<Longrightarrow> r' = r"
  unfolding counters_inv_def by blast

lemma invI:
  assumes "\<And>r a. Some (Some r, a) \<in> set ks \<Longrightarrow> \<exists>v. m r = Some v \<and> sint v = int (cnt ks r)"
    and "\<And>r a. Some (r, Some a) \<in> set ks \<Longrightarrow> m a \<noteq> None \<and> cnt ks a = 0"
    and "\<And>r r' a. Some (r, Some a) \<in> set ks \<Longrightarrow> Some (r', Some a) \<in> set ks \<Longrightarrow> r' = r"
  shows "counters_inv ks m"
  unfolding counters_inv_def using assms by blast

text \<open>a new object with two fresh counters\<close>

lemma inv_new:
  assumes inv: "counters_inv ks m"
    and f1: "\<And>c. n1 = Some c \<Longrightarrow> m c = None"
    and f2: "\<And>c. n2 = Some c \<Longrightarrow> m c = None \<and> n1 \<noteq> Some c"
    and m': "\<And>c. m' c = (if Some c = n2 then Some 0 else if Some c = n1 then Some 1 else m c)"
  shows "counters_inv (ks @ [Some (n1, n2)]) m'"
proof (rule invI)
  fix r a assume "Some (Some r, a) \<in> set (ks @ [Some (n1, n2)])"
  then consider (old) "Some (Some r, a) \<in> set ks" | (new) "n1 = Some r" "n2 = a" by auto
  then show "\<exists>v. m' r = Some v \<and> sint v = int (cnt (ks @ [Some (n1, n2)]) r)"
  proof cases
    case old
    from invD1 [OF inv old] obtain v where v: "m r = Some v" "sint v = int (cnt ks r)" by blast
    have 1: "n1 \<noteq> Some r" using f1 [of r] v(1) by auto
    have 2: "n2 \<noteq> Some r" using f2 [of r] v(1) by auto
    have "m' r = Some v" using 1 2 v(1) by (simp add: m')
    moreover have "cnt (ks @ [Some (n1, n2)]) r = cnt ks r" using 1 by (simp add: cnt_append)
    ultimately show ?thesis using v(2) by simp
  next
    case new
    have "\<And>a. Some (Some r, a) \<notin> set ks"
    proof
      fix a assume "Some (Some r, a) \<in> set ks"
      from invD1 [OF inv this] f1 [OF new(1)] show False by simp
    qed
    then have 0: "cnt ks r = 0" by (simp add: cnt_zero_iff)
    have 2: "n2 \<noteq> Some r" using f2 [of r] new(1) by auto
    have "m' r = Some 1" using 2 new(1) by (simp add: m')
    moreover have "cnt (ks @ [Some (n1, n2)]) r = 1" using 0 new(1) by (simp add: cnt_append)
    ultimately show ?thesis by simp
  qed
next
  fix r a assume "Some (r, Some a) \<in> set (ks @ [Some (n1, n2)])"
  then consider (old) "Some (r, Some a) \<in> set ks" | (new) "n1 = r" "n2 = Some a" by auto
  then show "m' a \<noteq> None \<and> cnt (ks @ [Some (n1, n2)]) a = 0"
  proof cases
    case old
    from invD2 [OF inv old] have l: "m a \<noteq> None" and z: "cnt ks a = 0" by simp_all
    have 1: "n1 \<noteq> Some a" using f1 [of a] l by auto
    have "m' a \<noteq> None" using l by (simp add: m')
    moreover have "cnt (ks @ [Some (n1, n2)]) a = 0" using 1 z by (simp add: cnt_append)
    ultimately show ?thesis by simp
  next
    case new
    have "\<And>b. Some (Some a, b) \<notin> set ks"
    proof
      fix b assume "Some (Some a, b) \<in> set ks"
      from invD1 [OF inv this] f2 [OF new(2)] show False by simp
    qed
    then have 0: "cnt ks a = 0" by (simp add: cnt_zero_iff)
    have 1: "n1 \<noteq> Some a" using f2 [OF new(2)] by simp
    have "m' a \<noteq> None" using new(2) by (simp add: m')
    moreover have "cnt (ks @ [Some (n1, n2)]) a = 0" using 0 1 by (simp add: cnt_append)
    ultimately show ?thesis by simp
  qed
next
  fix r r' a
  assume 1: "Some (r, Some a) \<in> set (ks @ [Some (n1, n2)])"
    and 2: "Some (r', Some a) \<in> set (ks @ [Some (n1, n2)])"
  have fresh: "n2 = Some a \<Longrightarrow> Some (x, Some a) \<notin> set ks" for x
  proof
    assume n: "n2 = Some a" and "Some (x, Some a) \<in> set ks"
    from invD2 [OF inv this(2)] f2 [OF n] show False by simp
  qed
  from 1 consider (o1) "Some (r, Some a) \<in> set ks" | (n1) "n1 = r" "n2 = Some a" by auto
  then show "r' = r"
  proof cases
    case o1
    from 2 consider (o2) "Some (r', Some a) \<in> set ks" | (n2) "n1 = r'" "n2 = Some a" by auto
    then show ?thesis
    proof cases
      case o2
      from invD3 [OF inv o1 o2] show ?thesis .
    next
      case n2
      with fresh [of r] o1 show ?thesis by simp
    qed
  next
    case n1
    from 2 consider (o2) "Some (r', Some a) \<in> set ks" | (n2) "n1 = r'" "n2 = Some a" by auto
    then show ?thesis
    proof cases
      case o2
      with fresh [of r'] n1 show ?thesis by simp
    next
      case n2
      with n1 show ?thesis by simp
    qed
  qed
qed

lemma cnt_pos: "Some (Some r, a) \<in> set ks \<Longrightarrow> 0 < cnt ks r"
  using cnt_zero_iff [of ks r] by auto

text \<open>a new object that shares the counters of an object\<close>

lemma inv_share:
  assumes inv: "counters_inv ks m" and src: "Some (Some r, a) \<in> set ks"
    and v: "m r = Some v" "sint v' = sint v + 1"
  shows "counters_inv (ks @ [Some (Some r, a)]) (m(r \<mapsto> v'))"
proof (rule invI)
  fix r2 a2 assume "Some (Some r2, a2) \<in> set (ks @ [Some (Some r, a)])"
  then have old: "Some (Some r2, a2) \<in> set ks" using src by auto
  from invD1 [OF inv old] obtain v2 where v2: "m r2 = Some v2" "sint v2 = int (cnt ks r2)" by blast
  show "\<exists>x. (m(r \<mapsto> v')) r2 = Some x \<and> sint x = int (cnt (ks @ [Some (Some r, a)]) r2)"
  proof (cases "r2 = r")
    case True
    with v v2 show ?thesis by (simp add: cnt_append)
  next
    case False
    with v2 show ?thesis by (simp add: cnt_append)
  qed
next
  fix r2 a2 assume "Some (r2, Some a2) \<in> set (ks @ [Some (Some r, a)])"
  then have old: "Some (r2, Some a2) \<in> set ks" using src by auto
  from invD2 [OF inv old] have l: "m a2 \<noteq> None" and z: "cnt ks a2 = 0" by simp_all
  have "a2 \<noteq> r" using z cnt_pos [OF src] by auto
  then show "(m(r \<mapsto> v')) a2 \<noteq> None \<and> cnt (ks @ [Some (Some r, a)]) a2 = 0"
    using l z by (simp add: cnt_append)
next
  fix r2 r3 a2
  assume "Some (r2, Some a2) \<in> set (ks @ [Some (Some r, a)])"
    and "Some (r3, Some a2) \<in> set (ks @ [Some (Some r, a)])"
  then have "Some (r2, Some a2) \<in> set ks" "Some (r3, Some a2) \<in> set ks" using src by auto
  from invD3 [OF inv this] show "r3 = r2" .
qed

text \<open>a call changes the counter of outstanding allocations\<close>

lemma inv_allocs_update:
  assumes inv: "counters_inv ks m" and k: "Some (r, Some a) \<in> set ks"
  shows "counters_inv ks (m(a \<mapsto> v))"
proof (rule invI)
  fix r2 a2 assume old: "Some (Some r2, a2) \<in> set ks"
  from invD2 [OF inv k] have "cnt ks a = 0" by simp
  with cnt_pos [OF old] have "r2 \<noteq> a" by auto
  with invD1 [OF inv old] show "\<exists>x. (m(a \<mapsto> v)) r2 = Some x \<and> sint x = int (cnt ks r2)"
    by simp
next
  fix r2 a2 assume "Some (r2, Some a2) \<in> set ks"
  from invD2 [OF inv this] show "(m(a \<mapsto> v)) a2 \<noteq> None \<and> cnt ks a2 = 0" by simp
next
  fix r2 r3 a2 assume "Some (r2, Some a2) \<in> set ks" "Some (r3, Some a2) \<in> set ks"
  from invD3 [OF inv this] show "r3 = r2" .
qed

lemma in_set_update_None: "x \<in> set (ks[i := None]) \<Longrightarrow> x = None \<or> x \<in> set ks"
  using set_update_subset_insert [of ks i None] by auto

text \<open>an object with a null reference counter is destroyed\<close>

lemma inv_remove_null:
  assumes inv: "counters_inv ks m" and i: "i < length ks" "ks ! i = Some (None, a)"
  shows "counters_inv (ks[i := None]) m"
proof -
  have c: "cnt (ks[i := None]) c = cnt ks c" for c
    using cnt_update [OF i(1), of None c] i(2) by simp
  show ?thesis
  proof (rule invI)
    fix r2 a2 assume "Some (Some r2, a2) \<in> set (ks[i := None])"
    then have "Some (Some r2, a2) \<in> set ks" using in_set_update_None by fastforce
    from invD1 [OF inv this] show "\<exists>x. m r2 = Some x \<and> sint x = int (cnt (ks[i := None]) r2)"
      by (simp add: c)
  next
    fix r2 a2 assume "Some (r2, Some a2) \<in> set (ks[i := None])"
    then have "Some (r2, Some a2) \<in> set ks" using in_set_update_None by fastforce
    from invD2 [OF inv this] show "m a2 \<noteq> None \<and> cnt (ks[i := None]) a2 = 0"
      by (simp add: c)
  next
    fix r2 r3 a2
    assume "Some (r2, Some a2) \<in> set (ks[i := None])" "Some (r3, Some a2) \<in> set (ks[i := None])"
    then have "Some (r2, Some a2) \<in> set ks" "Some (r3, Some a2) \<in> set ks"
      using in_set_update_None by fastforce+
    from invD3 [OF inv this] show "r3 = r2" .
  qed
qed

text \<open>an object is destroyed; its reference counter was \<open>v\<close> and is \<open>v'\<close> now\<close>

lemma inv_remove:
  assumes inv: "counters_inv ks m" and i: "i < length ks" "ks ! i = Some (Some r, a)"
    and v: "m r = Some v" "sint v' = sint v - 1"
    and m': "if v' = 0 then \<forall>c. m' c = (if c = r \<or> Some c = a then None else m c)
             else m' = m(r \<mapsto> v')"
  shows "counters_inv (ks[i := None]) m'"
proof -
  have k: "Some (Some r, a) \<in> set ks" using i by (metis nth_mem)
  from invD1 [OF inv k] v(1) have vr: "sint v = int (cnt ks r)" by simp
  have cr: "cnt (ks[i := None]) r + 1 = cnt ks r"
    using cnt_update [OF i(1), of None r] i(2) by simp
  have co: "cnt (ks[i := None]) c = cnt ks c" if "c \<noteq> r" for c
    using cnt_update [OF i(1), of None c] i(2) that by simp
  have v': "sint v' = int (cnt (ks[i := None]) r)" using v(2) vr cr by linarith
  have "v' = 0" if "sint v' = 0"
  proof -
    from that have "word_of_int (sint v') = (word_of_int 0 :: cint)" by (simp only:)
    then show ?thesis by simp
  qed
  then have "v' = 0 \<longleftrightarrow> sint v' = 0" by auto
  then have zero: "v' = 0 \<longleftrightarrow> cnt (ks[i := None]) r = 0"
    using v' by simp
  show ?thesis
  proof (rule invI)
    fix r2 a2 assume n: "Some (Some r2, a2) \<in> set (ks[i := None])"
    then have old: "Some (Some r2, a2) \<in> set ks" using in_set_update_None by fastforce
    from invD1 [OF inv old] obtain v2 where v2: "m r2 = Some v2" "sint v2 = int (cnt ks r2)"
      by blast
    show "\<exists>x. m' r2 = Some x \<and> sint x = int (cnt (ks[i := None]) r2)"
    proof (cases "r2 = r")
      case True
      with cnt_pos [OF n] zero have "v' \<noteq> 0" by simp
      with m' have "m' = m(r \<mapsto> v')" by simp
      with True v' show ?thesis by simp
    next
      case False
      have "Some r2 \<noteq> a"
      proof
        assume "Some r2 = a"
        with k have "Some (Some r, Some r2) \<in> set ks" by simp
        from invD2 [OF inv this] cnt_pos [OF old] show False by simp
      qed
      with False m' have "m' r2 = m r2" by (cases "v' = 0") simp_all
      with v2 co [OF False] show ?thesis by simp
    qed
  next
    fix r2 a2 assume n: "Some (r2, Some a2) \<in> set (ks[i := None])"
    then have old: "Some (r2, Some a2) \<in> set ks" using in_set_update_None by fastforce
    from invD2 [OF inv old] have l: "m a2 \<noteq> None" and z: "cnt ks a2 = 0" by simp_all
    have ne: "a2 \<noteq> r" using z cnt_pos [OF k] by auto
    have "m' a2 \<noteq> None"
    proof (cases "v' = 0")
      case False
      with m' l ne show ?thesis by simp
    next
      case True
      have "a \<noteq> Some a2"
      proof
        assume "a = Some a2"
        with k have "Some (Some r, Some a2) \<in> set ks" by simp
        from invD3 [OF inv old this] have "r2 = Some r" by simp
        with n have "0 < cnt (ks[i := None]) r" using cnt_pos by simp
        with zero True show False by simp
      qed
      with True m' l ne show ?thesis by auto
    qed
    moreover have "cnt (ks[i := None]) a2 = 0" using co [OF ne] z by simp
    ultimately show "m' a2 \<noteq> None \<and> cnt (ks[i := None]) a2 = 0" by simp
  next
    fix r2 r3 a2
    assume "Some (r2, Some a2) \<in> set (ks[i := None])" "Some (r3, Some a2) \<in> set (ks[i := None])"
    then have "Some (r2, Some a2) \<in> set ks" "Some (r3, Some a2) \<in> set ks"
      using in_set_update_None by fastforce+
    from invD3 [OF inv this] show "r3 = r2" .
  qed
qed

lemma ctor_frame:
  assumes "fb_alloc_ctor cfg w n1 n2 = Returns h w'"
  shows "refcount_m h = n1 \<and> nof_allocs_m h = n2
         \<and> (\<forall>c. ints w' c = (if Some c = n2 then Some 0 else if Some c = n1 then Some 1
                              else ints w c))"
  using assms
  by (auto simp: fb_alloc_ctor_def Let_def split: if_splits option.splits)

lemma copy_ctor_frame:
  assumes "fb_alloc_copy_ctor cfg w fba n1 n2 = Returns h w'"
  shows "(refcount_m h = refcount_m fba \<and> nof_allocs_m h = nof_allocs_m fba
          \<and> (\<exists>r v v'. refcount_m fba = Some r \<and> ints w r = Some v \<and> sint v' = sint v + 1
                \<and> ints w' = (ints w)(r \<mapsto> v')))
         \<or> (refcount_m h = n1 \<and> nof_allocs_m h = n2
             \<and> (\<forall>c. ints w' c = (if Some c = n2 then Some 0 else if Some c = n1 then Some 1
                              else ints w c)))"
proof -
  let ?h0 = "\<lparr>nof_elmts_m = nof_elements cfg, elsize_m = sizeof_T cfg,
               alignment_m = alignment cfg, pool_head_m = 0, chunk_head_m = 0,
               refcount_m = None, nof_allocs_m = None\<rparr>"
  let ?e = "calc_elsize (sizeof_T cfg) (alignment cfg)"
  show ?thesis
  proof (cases "?e = elsize_m fba")
    case True
    with assms obtain v' where a: "add_int w (refcount_m fba) 1 = Inr (v', w')"
      and h: "refcount_m h = refcount_m fba" "nof_allocs_m h = nof_allocs_m fba"
      by (auto simp: fb_alloc_copy_ctor_def Let_def split: if_splits sum.splits)
    from add_int_Inr [OF a] obtain r v where r: "refcount_m fba = Some r" "ints w r = Some v"
      "int_add v 1 = Inr v'" "w' = w\<lparr>ints := (ints w)(r \<mapsto> v')\<rparr>"
      by blast
    from int_add_Inr(2) [OF r(3)] have "sint v' = sint v + 1" .
    with r h show ?thesis by auto
  next
    case False
    with assms have "refcount_m h = n1" "nof_allocs_m h = n2"
      "\<forall>c. ints w' c = (if Some c = n2 then Some 0 else if Some c = n1 then Some 1
                              else ints w c)"
      by (auto simp: fb_alloc_copy_ctor_def Let_def split: if_splits option.splits)
    then show ?thesis by blast
  qed
qed

lemma deallocate_chunk_ints: "deallocate_chunk cfg w p = Inr w' \<Longrightarrow> ints w' = ints w"
  by (auto simp: deallocate_chunk_def Let_def split: sum.splits if_splits)

lemma clean_loop_ints:
  assumes "clean_loop cfg off p w = Some y"
  shows "\<forall>w'. y = Inr w' \<longrightarrow> ints w' = ints w"
  using assms
proof (induction cfg off p w y rule: clean_loop.raw_induct [rotated 1, consumes 1, case_names step])
  case (step loop cfg off p w y)
  show ?case
  proof (cases "p = 0")
    case True
    with step(2) show ?thesis by auto
  next
    case False
    show ?thesis
    proof (cases "deallocate_chunk cfg w p")
      case (Inl f)
      with step(2) False show ?thesis by (auto simp: Let_def)
    next
      case (Inr w1)
      with step(2) False have "loop cfg off (load64 (mem w) (p + off)) w1 = Some y"
        by (simp add: Let_def)
      from step(1) [OF this] deallocate_chunk_ints [OF Inr] show ?thesis by simp
    qed
  qed
qed

lemma clean_frame:
  assumes "clean cfg (h, w) = Some (Inr (h', w'))"
  shows "ints w' = ints w \<and> refcount_m h' = refcount_m h \<and> nof_allocs_m h' = nof_allocs_m h"
proof -
  from assms have c: "clean_loop cfg (elsize_m h * ucast (nof_elmts_m h)) (chunk_head_m h) w
                      = Some (Inr w')" and h: "h' = h\<lparr>pool_head_m := 0, chunk_head_m := 0\<rparr>"
    by (auto simp: clean_def split: option.splits sum.splits)
  from clean_loop_ints [OF c] h show ?thesis by simp
qed

lemma delete_int_Inr:
  assumes "delete_int w p = Inr w'"
  shows "\<forall>c. ints w' c = (if Some c = p then None else ints w c)"
  using assms by (auto simp: delete_int_def split: option.splits)

lemma dtor_frame:
  assumes "fb_alloc_dtor cfg (h, w) = Some (Returns u w')"
  shows "(refcount_m h = None \<and> ints w' = ints w)
         \<or> (\<exists>r v v'. refcount_m h = Some r \<and> ints w r = Some v \<and> sint v' = sint v - 1
               \<and> (if v' = 0
                   then \<forall>c. ints w' c = (if c = r \<or> Some c = nof_allocs_m h then None else ints w c)
                   else ints w' = (ints w)(r \<mapsto> v')))"
proof (cases "refcount_m h")
  case None
  with assms show ?thesis by (simp add: fb_alloc_dtor_def)
next
  case (Some r)
  with assms obtain v' w1 where a: "add_int w (Some r) (- 1) = Inr (v', w1)"
    by (auto simp: fb_alloc_dtor_def split: sum.splits)
  from add_int_Inr [OF a] obtain v where v: "ints w r = Some v" "int_add v (- 1) = Inr v'"
    "w1 = w\<lparr>ints := (ints w)(r \<mapsto> v')\<rparr>"
    by auto
  from int_add_Inr(2) [OF v(2)] have s: "sint v' = sint v - 1" by simp
  show ?thesis
  proof (cases "v' = 0")
    case False
    with assms Some a have "w' = w1"
      by (auto simp: fb_alloc_dtor_def split: if_splits)
    with False v s Some show ?thesis by auto
  next
    case True
    with assms Some a obtain h2 w2 w3 where c: "clean cfg (h, w1) = Some (Inr (h2, w2))"
      and d1: "delete_int w2 (refcount_m h2) = Inr w3"
      and d2: "delete_int w3 (nof_allocs_m h2) = Inr w'"
      by (auto simp: fb_alloc_dtor_def split: if_splits option.splits sum.splits)
    from clean_frame [OF c] have f: "ints w2 = ints w1" "refcount_m h2 = Some r"
      "nof_allocs_m h2 = nof_allocs_m h"
      using Some by simp_all
    have "\<forall>c. ints w' c = (if c = r \<or> Some c = nof_allocs_m h then None else ints w c)"
      using delete_int_Inr [OF d1] delete_int_Inr [OF d2] f v(3) by auto
    with True v s Some show ?thesis by auto
  qed
qed

lemma allocate_chunk_ints:
  "allocate_chunk cfg h w heap = r \<Longrightarrow> state_after r = Some w' \<Longrightarrow> ints w' = ints w"
  by (auto simp: allocate_chunk_def Let_def state_after_def
      split: sum.splits option.splits if_splits)

lemma grow_frame:
  assumes "grow cfg (h, w) heap = r" and "state_after r = Some (h', w')"
  shows "refcount_m h' = refcount_m h \<and> nof_allocs_m h' = nof_allocs_m h \<and> ints w' = ints w"
proof (cases "refcount_m h = None \<or> nof_allocs_m h = None")
  case True
  with assms show ?thesis by (auto simp: grow_def state_after_def)
next
  case False
  show ?thesis
  proof (cases "allocate_chunk cfg h w heap")
    case (Returns start w1)
    then have "ints w1 = ints w" by (auto intro: allocate_chunk_ints simp: state_after_def)
    with assms False Returns show ?thesis
      by (auto simp: grow_def state_after_def Let_def split_beta)
  next
    case (Throws_bad_alloc w1)
    then have "ints w1 = ints w" by (auto intro: allocate_chunk_ints simp: state_after_def)
    with assms False Throws_bad_alloc show ?thesis
      by (auto simp: grow_def state_after_def)
  next
    case (Aborts f)
    with assms False show ?thesis by (auto simp: grow_def state_after_def)
  qed
qed

lemma allocate_frame:
  assumes "state_after (allocate cfg (h, w) n heap) = Some (h', w')"
  shows "refcount_m h' = refcount_m h \<and> nof_allocs_m h' = nof_allocs_m h
         \<and> (ints w' = ints w
             \<or> (\<exists>a v. nof_allocs_m h = Some a \<and> ints w a \<noteq> None \<and> ints w' = (ints w)(a \<mapsto> v)))"
proof (cases "n = 1")
  case False
  with assms show ?thesis
    by (auto simp: allocate_def state_after_def split: option.splits)
next
  case True
  define g where "g = (if pool_head_m h = 0 then grow cfg (h, w) heap else Returns () (h, w))"
  show ?thesis
  proof (cases g)
    case (Returns u s1)
    obtain h1 w1 where s1: "s1 = (h1, w1)" by (cases s1)
    have f: "refcount_m h1 = refcount_m h \<and> nof_allocs_m h1 = nof_allocs_m h \<and> ints w1 = ints w"
    proof (cases "pool_head_m h = 0")
      case True
      with Returns s1 have "grow cfg (h, w) heap = Returns u (h1, w1)" by (simp add: g_def)
      from grow_frame [OF this] show ?thesis by (simp add: state_after_def)
    next
      case False
      with Returns s1 show ?thesis by (simp add: g_def)
    qed
    from assms True Returns s1 obtain v w2 where
      a: "add_int w1 (nof_allocs_m h1) 1 = Inr (v, w2)" and r: "w' = w2"
      "h' = h1\<lparr>pool_head_m := load64 (mem w1) (pool_head_m h1)\<rparr>"
      by (auto simp: allocate_def g_def [symmetric] Let_def state_after_def
          split: sum.splits if_splits)
    from add_int_Inr [OF a] f r show ?thesis by auto
  next
    case (Throws_bad_alloc s1)
    obtain h1 w1 where s1: "s1 = (h1, w1)" by (cases s1)
    from Throws_bad_alloc s1 have "grow cfg (h, w) heap = Throws_bad_alloc (h1, w1)"
      by (auto simp: g_def split: if_splits)
    from grow_frame [OF this] have
      "refcount_m h1 = refcount_m h \<and> nof_allocs_m h1 = nof_allocs_m h \<and> ints w1 = ints w"
      by (simp add: state_after_def)
    moreover from assms True Throws_bad_alloc s1 have "h' = h1" "w' = w1"
      by (auto simp: allocate_def g_def [symmetric] state_after_def)
    ultimately show ?thesis by simp
  next
    case (Aborts f)
    with assms True show ?thesis
      by (auto simp: allocate_def g_def [symmetric] state_after_def)
  qed
qed

lemma deallocate_frame:
  assumes "deallocate cfg (h, w) p n = Some r" and "state_after r = Some (h', w')"
  shows "refcount_m h' = refcount_m h \<and> nof_allocs_m h' = nof_allocs_m h
         \<and> (ints w' = ints w
             \<or> (\<exists>a v. nof_allocs_m h = Some a \<and> ints w a \<noteq> None \<and> ints w' = (ints w)(a \<mapsto> v)))"
proof (cases "n = 1")
  case False
  with assms show ?thesis by (auto simp: deallocate_def state_after_def)
next
  case True
  from assms True obtain u where "r = Returns u (h', w')"
    by (auto simp: deallocate_def state_after_def Let_def
        split: option.splits bool.splits sum.splits if_splits)
  with assms(1) True have "deallocate cfg (h, w) p 1 = Some (Returns u (h', w'))" by simp
  from deallocate_one_Returns [OF this] obtain v where h': "h' = h\<lparr>pool_head_m := p\<rparr>"
    and a: "add_int (w\<lparr>mem := store64 (mem w) p (pool_head_m h)\<rparr>) (nof_allocs_m h) (- 1) = Inr (v, w')"
    by blast
  from add_int_Inr [OF a] h' show ?thesis by auto
qed

lemma write_int_Inr:
  "write_int w p v = Inr w' \<Longrightarrow> \<exists>c. p = Some c \<and> ints w c \<noteq> None \<and> w' = w\<lparr>ints := (ints w)(c \<mapsto> v)\<rparr>"
  by (auto simp: write_int_def split: option.splits)

lemma release_frame:
  assumes "release cfg (h, w) = Some r" and "state_after r = Some (h', w')"
  shows "refcount_m h' = refcount_m h \<and> nof_allocs_m h' = nof_allocs_m h
         \<and> ((refcount_m h = None \<and> ints w' = ints w)
             \<or> (\<exists>rc v v'. refcount_m h = Some rc \<and> ints w rc = Some v \<and> sint v' = sint v - 1
                   \<and> (if v' = 0
                       then \<exists>a. nof_allocs_m h = Some a \<and> ints w a \<noteq> None
                              \<and> ints w' = (ints w)(rc \<mapsto> 1, a \<mapsto> 0)
                       else ints w' = (ints w)(rc \<mapsto> v'))))"
proof (cases "refcount_m h")
  case None
  with assms show ?thesis by (auto simp: release_def state_after_def)
next
  case (Some rc)
  with assms obtain v' w1 where a: "add_int w (Some rc) (- 1) = Inr (v', w1)"
    by (auto simp: release_def state_after_def split: sum.splits)
  from add_int_Inr [OF a] obtain v where v: "ints w rc = Some v" "int_add v (- 1) = Inr v'"
    "w1 = w\<lparr>ints := (ints w)(rc \<mapsto> v')\<rparr>"
    by auto
  from int_add_Inr(2) [OF v(2)] have s: "sint v' = sint v - 1" by simp
  show ?thesis
  proof (cases "v' = 0")
    case False
    with assms Some a have "w' = w1" "h' = h"
      by (auto simp: release_def state_after_def split: if_splits)
    with False v s Some show ?thesis by auto
  next
    case True
    with assms Some a obtain h2 w2 w3 where c: "clean cfg (h, w1) = Some (Inr (h2, w2))"
      and d1: "write_int w2 (refcount_m h2) 1 = Inr w3"
      and d2: "write_int w3 (nof_allocs_m h2) 0 = Inr w'" and h': "h' = h2"
      by (auto simp: release_def state_after_def split: if_splits option.splits sum.splits)
    from clean_frame [OF c] have f: "ints w2 = ints w1" "refcount_m h2 = Some rc"
      "nof_allocs_m h2 = nof_allocs_m h"
      using Some by simp_all
    from write_int_Inr [OF d1] f have w3: "ints w3 = (ints w)(rc \<mapsto> 1)"
      by (auto simp: v(3))
    from write_int_Inr [OF d2] obtain a where a: "nof_allocs_m h2 = Some a" "ints w3 a \<noteq> None"
      "ints w' = (ints w3)(a \<mapsto> 0)"
      by auto
    have "ints w a \<noteq> None" using a(2) w3 v(1) by (cases "a = rc") simp_all
    with a w3 f h' True v s Some show ?thesis by auto
  qed
qed

lemma key_in_set:
  assumes "object_at p i = Some (cfg, h)"
  shows "Some (refcount_m h, nof_allocs_m h) \<in> set (map key_of (objects p))"
    and "i < length (objects p)" and "map key_of (objects p) ! i = Some (refcount_m h, nof_allocs_m h)"
proof -
  from assms show i: "i < length (objects p)"
    by (auto simp: object_at_def split: if_splits)
  with assms have o: "objects p ! i = Some (cfg, h)" by (simp add: object_at_def)
  then show "map key_of (objects p) ! i = Some (refcount_m h, nof_allocs_m h)"
    using i by (simp add: key_of_def)
  from o i have "Some (cfg, h) \<in> set (objects p)" by (metis nth_mem)
  then have "key_of (Some (cfg, h)) \<in> set (map key_of (objects p))" by (simp only: set_map image_eqI)
  then show "Some (refcount_m h, nof_allocs_m h) \<in> set (map key_of (objects p))"
    by (simp add: key_of_def)
qed

lemma keys_update_same:
  assumes "object_at p i = Some (cfg, h)"
    and "refcount_m h' = refcount_m h" "nof_allocs_m h' = nof_allocs_m h"
  shows "map key_of ((objects p)[i := Some (cfg', h')]) = map key_of (objects p)"
proof -
  have "map key_of ((objects p)[i := Some (cfg', h')])
          = (map key_of (objects p))[i := Some (refcount_m h, nof_allocs_m h)]"
    using assms(2,3) by (simp add: map_update key_of_def)
  also have "\<dots> = map key_of (objects p)"
    using key_in_set(3) [OF assms(1)] by (metis list_update_id)
  finally show ?thesis .
qed

lemma sint_eq_iff_cint: "sint (v :: cint) = k \<Longrightarrow> v = word_of_int k"
  by auto

lemma step_inv:
  assumes inv: "counters_inv (map key_of (objects p)) (ints (pworld p))"
    and ru: "release_unshared p e" and st: "step p e = Some p'"
    and bt: "by_template e"
  shows "counters_inv (map key_of (objects p')) (ints (pworld p'))"
proof (cases e)
  case (Copy i)
  with bt show ?thesis by (simp add: by_template_def)
next
  case (Construct cfg n1 n2)
  with st obtain h w' where fr: "fresh_ints (pworld p) n1 n2"
    and c: "fb_alloc_ctor cfg (pworld p) n1 n2 = Returns h w'"
    and p': "p' = \<lparr>objects = objects p @ [Some (cfg, h)], pworld = w'\<rparr>"
    by (auto simp: step_def split: if_splits outcome.splits)
  note f = ctor_frame [OF c]
  have k: "map key_of (objects p') = map key_of (objects p) @ [Some (n1, n2)]"
    using f by (simp add: p' key_of_def)
  show ?thesis
    unfolding k
  proof (rule inv_new [OF inv])
    fix c assume "n1 = Some c"
    with fr show "ints (pworld p) c = None" by (simp add: fresh_ints_def)
  next
    fix c assume "n2 = Some c"
    with fr show "ints (pworld p) c = None \<and> n1 \<noteq> Some c" by (simp add: fresh_ints_def)
  next
    fix c show "ints (pworld p') c
        = (if Some c = n2 then Some 0 else if Some c = n1 then Some 1 else ints (pworld p) c)"
      using f by (simp add: p')
  qed
next
  case (Share cfg i n1 n2)
  with st obtain cfg_u fba h w' where ob: "object_at p i = Some (cfg_u, fba)"
    and fr: "fresh_ints (pworld p) n1 n2"
    and c: "fb_alloc_copy_ctor cfg (pworld p) fba n1 n2 = Returns h w'"
    and p': "p' = \<lparr>objects = objects p @ [Some (cfg, h)], pworld = w'\<rparr>"
    by (auto simp: step_def split: if_splits outcome.splits option.splits)
  have k: "map key_of (objects p')
             = map key_of (objects p) @ [Some (refcount_m h, nof_allocs_m h)]"
    by (simp add: p' key_of_def)
  from copy_ctor_frame [OF c]
  consider (shared) r v v' where "refcount_m h = refcount_m fba" "nof_allocs_m h = nof_allocs_m fba"
      "refcount_m fba = Some r" "ints (pworld p) r = Some v" "sint v' = sint v + 1"
      "ints w' = (ints (pworld p))(r \<mapsto> v')"
    | (own) "refcount_m h = n1" "nof_allocs_m h = n2"
      "\<forall>c. ints w' c = (if Some c = n2 then Some 0 else if Some c = n1 then Some 1
                              else ints (pworld p) c)"
    by blast
  then show ?thesis
  proof cases
    case shared
    have src: "Some (Some r, nof_allocs_m fba) \<in> set (map key_of (objects p))"
      using key_in_set(1) [OF ob] shared(3) by simp
    from inv_share [OF inv src shared(4,5)] show ?thesis
      unfolding k by (simp add: shared p')
  next
    case own
    show ?thesis
      unfolding k own(1,2)
    proof (rule inv_new [OF inv])
      fix c assume "n1 = Some c"
      with fr show "ints (pworld p) c = None" by (simp add: fresh_ints_def)
    next
      fix c assume "n2 = Some c"
      with fr show "ints (pworld p) c = None \<and> n1 \<noteq> Some c" by (simp add: fresh_ints_def)
    next
      fix c show "ints (pworld p') c
          = (if Some c = n2 then Some 0 else if Some c = n1 then Some 1 else ints (pworld p) c)"
        using own(3) by (simp add: p')
    qed
  qed
next
  case (Destroy i)
  with st obtain cfg h u w' where ob: "object_at p i = Some (cfg, h)"
    and d: "fb_alloc_dtor cfg (h, pworld p) = Some (Returns u w')"
    and p': "p' = \<lparr>objects = (objects p)[i := None], pworld = w'\<rparr>"
    by (auto simp: step_def split: option.splits outcome.splits)
  note ki = key_in_set [OF ob]
  have i: "i < length (map key_of (objects p))" using ki(2) by simp
  have k: "map key_of (objects p') = (map key_of (objects p))[i := None]"
    by (simp add: p' map_update key_of_def)
  from dtor_frame [OF d] show ?thesis
  proof (elim disjE exE conjE)
    assume null: "refcount_m h = None" "ints w' = ints (pworld p)"
    from inv_remove_null [OF inv i] ki(3) null show ?thesis
      unfolding k by (simp add: p')
  next
    fix r v v'
    assume counted: "refcount_m h = Some r" "ints (pworld p) r = Some v"
        "sint v' = sint v - 1"
        "if v' = 0
         then \<forall>c. ints w' c = (if c = r \<or> Some c = nof_allocs_m h then None else ints (pworld p) c)
         else ints w' = (ints (pworld p))(r \<mapsto> v')"
    have "counters_inv ((map key_of (objects p))[i := None]) (ints w')"
      by (rule inv_remove [OF inv i _ counted(2,3)]) (use ki(3) counted(1,4) in simp_all)
    then show ?thesis unfolding k by (simp add: p')
  qed
next
  case (Call i c)
  with st obtain cfg h h' w' where ob: "object_at p i = Some (cfg, h)"
    and dc: "do_call cfg (h, pworld p) c = Some (h', w')"
    and p': "p' = \<lparr>objects = (objects p)[i := Some (cfg, h')], pworld = w'\<rparr>"
    by (auto simp: step_def split: option.splits)
  note ki = key_in_set [OF ob]
  have goal: "counters_inv (map key_of (objects p)) (ints w')
                \<and> refcount_m h' = refcount_m h \<and> nof_allocs_m h' = nof_allocs_m h"
  proof (cases c)
    case (Allocate n heap)
    with dc have "state_after (allocate cfg (h, pworld p) n heap) = Some (h', w')"
      by (simp add: do_call_def)
    from allocate_frame [OF this] inv inv_allocs_update [OF inv, of "refcount_m h"] ki(1)
    show ?thesis by auto
  next
    case (Deallocate q n)
    with dc obtain r where "deallocate cfg (h, pworld p) q n = Some r"
      "state_after r = Some (h', w')"
      by (auto simp: do_call_def split: Option.bind_splits)
    from deallocate_frame [OF this] inv inv_allocs_update [OF inv, of "refcount_m h"] ki(1)
    show ?thesis by auto
  next
    case Release
    with dc obtain r where "release cfg (h, pworld p) = Some r" "state_after r = Some (h', w')"
      by (auto simp: do_call_def split: Option.bind_splits)
    note f = release_frame [OF this]
    show ?thesis
    proof (cases "refcount_m h")
      case None
      with f inv show ?thesis by auto
    next
      case (Some rc)
      with f obtain v v' where v: "ints (pworld p) rc = Some v" "sint v' = sint v - 1"
        and m: "if v' = 0
                then \<exists>a. nof_allocs_m h = Some a \<and> ints (pworld p) a \<noteq> None
                       \<and> ints w' = (ints (pworld p))(rc \<mapsto> 1, a \<mapsto> 0)
                else ints w' = (ints (pworld p))(rc \<mapsto> v')"
        by auto
      have src: "Some (Some rc, nof_allocs_m h) \<in> set (map key_of (objects p))"
        using ki(1) Some by simp
      from invD1 [OF inv src] v(1) have "sint v = int (cnt (map key_of (objects p)) rc)" by simp
      with cnt_pos [OF src] have lo: "1 \<le> sint v" by simp
      from ru Call Release ob Some v(1) have "sint v \<le> 1"
        by (simp add: release_unshared_def refcount_def)
      with lo have one: "sint v = 1" by simp
      then have v1: "v = 1" using sint_eq_iff_cint [of v 1] by simp
      from one v(2) have "sint v' = 0" by simp
      then have "v' = 0" using sint_eq_iff_cint [of v' 0] by simp
      with m obtain a where a: "nof_allocs_m h = Some a"
        "ints w' = (ints (pworld p))(rc \<mapsto> 1, a \<mapsto> 0)"
        by auto
      have "(ints (pworld p))(rc \<mapsto> 1) = ints (pworld p)"
        using v(1) v1 by (simp add: fun_upd_idem_iff)
      with a(2) have "ints w' = (ints (pworld p))(a \<mapsto> 0)" by simp
      moreover have "Some (Some rc, Some a) \<in> set (map key_of (objects p))"
        using src a(1) by simp
      ultimately show ?thesis
        using inv_allocs_update [OF inv, of "Some rc" a 0] f by simp
    qed
  qed
  then have "map key_of (objects p') = map key_of (objects p)"
    using keys_update_same [OF ob, of h' cfg] by (simp add: p')
  with goal show ?thesis by (simp add: p')
qed

lemma run_inv:
  assumes "counters_inv (map key_of (objects p)) (ints (pworld p))"
    and "releases_unshared p es" and "run_events p es = Some p'"
    and "list_all by_template es"
  shows "counters_inv (map key_of (objects p')) (ints (pworld p'))"
  using assms
proof (induction es arbitrary: p)
  case Nil
  then show ?case by simp
next
  case (Cons e es)
  from Cons.prems(3) obtain p1 where s: "step p e = Some p1" and r: "run_events p1 es = Some p'"
    by (auto split: option.splits)
  from Cons.prems(2) s have ru: "release_unshared p e" and rest: "releases_unshared p1 es"
    by simp_all
  from Cons.prems(4) have bt: "by_template e" and bts: "list_all by_template es"
    by simp_all
  from step_inv [OF Cons.prems(1) ru s bt]
  have "counters_inv (map key_of (objects p1)) (ints (pworld p1))" .
  from Cons.IH [OF this rest r bts] show ?case .
qed

text \<open>
  What the member template does right. In a process that starts with no object, in which
  every object made from another object is made by the member template (from an object of
  another element type) and \<^verbatim>\<open>release\<close> is called only on an object whose \<^verbatim>\<open>refcount()\<close> is
  at most 1: for every live object with non-null counters, \<^verbatim>\<open>refcount()\<close> is the number of
  live objects whose \<^verbatim>\<open>refcount_\<close> is the same pointer, and it is at least 1.
\<close>

lemma template_sharing_counted:
  assumes "run_events process0 es = Some p" and "releases_unshared process0 es"
    and "list_all by_template es"
    and "object_at p i = Some (cfg, h)" and "refcount_m h = Some c"
  shows "refcount h (pworld p) = Inr (int (count_refs p c)) \<and> 1 \<le> count_refs p c"
proof -
  have "counters_inv (map key_of (objects process0)) (ints (pworld process0))"
    by (simp add: process0_def counters_inv_def)
  from run_inv [OF this assms(2,1,3)]
  have inv: "counters_inv (map key_of (objects p)) (ints (pworld p))" .
  have src: "Some (Some c, nof_allocs_m h) \<in> set (map key_of (objects p))"
    using key_in_set(1) [OF assms(4)] assms(5) by simp
  from invD1 [OF inv src] obtain v where "ints (pworld p) c = Some v"
    "sint v = int (cnt (map key_of (objects p)) c)"
    by blast
  with cnt_pos [OF src] assms(5) show ?thesis
    by (simp add: refcount_def count_refs_cnt)
qed

lemmas process_defs = step_def fresh_ints_def object_at_def process0_def world0_def
  cfg_a_def cfg_b_def fb_alloc_ctor_def fb_alloc_copy_ctor_def assert_def Let_def
  calc_elsize_exact add_int_def int_add_def INT_MIN_def INT_MAX_def
  fb_alloc_dtor_def release_def do_call_def state_after_def refcount_def
  fb_alloc_implicit_copy_def

lemma ctor_cfg_a: "calc_elsize 8 8 = 8"
  by (simp add: calc_elsize_unfold)

lemma run_shared:
  "run_events process0 es_shared
     = Some \<lparr>objects = [None,
                Some (cfg_b, \<lparr>nof_elmts_m = 2, elsize_m = 8, alignment_m = 8, pool_head_m = 0,
                       chunk_head_m = 0, refcount_m = Some 0, nof_allocs_m = Some 1\<rparr>),
                Some (cfg_a, \<lparr>nof_elmts_m = 2, elsize_m = 8, alignment_m = 8, pool_head_m = 0,
                       chunk_head_m = 0, refcount_m = Some 0, nof_allocs_m = Some 1\<rparr>)],
              pworld = world0\<lparr>ints := [0 \<mapsto> 2, 1 \<mapsto> 0]\<rparr>\<rparr>"
  by (simp add: es_shared_def process_defs ctor_cfg_a fun_upd_twist)

text \<open>
  Why \<^verbatim>\<open>release\<close> on a shared group is left out above (the specification calls it a contract
  violation): after \<^verbatim>\<open>fb_alloc<A,2,8> x; fb_alloc<B,2,8> y(x); x.release();\<close> both objects
  are live and point to the same counters, and \<^verbatim>\<open>refcount()\<close> is 1 on both.
\<close>

lemma release_on_shared_group:
  "map_option refcounts
     (run_events process0
        [Construct cfg_a (Some 0) (Some 1), Share cfg_b 0 None None, Call 0 Release])
     = Some [Some (Inr 1), Some (Inr 1)]
   \<and> map_option (\<lambda>p. count_refs p 0)
       (run_events process0
          [Construct cfg_a (Some 0) (Some 1), Share cfg_b 0 None None, Call 0 Release])
     = Some 2"
  by (simp add: process_defs ctor_cfg_a refcounts_def count_refs_def shares_def)

lemma p_shared_eq:
  "p_shared = \<lparr>objects = [None,
                Some (cfg_b, \<lparr>nof_elmts_m = 2, elsize_m = 8, alignment_m = 8, pool_head_m = 0,
                       chunk_head_m = 0, refcount_m = Some 0, nof_allocs_m = Some 1\<rparr>),
                Some (cfg_a, \<lparr>nof_elmts_m = 2, elsize_m = 8, alignment_m = 8, pool_head_m = 0,
                       chunk_head_m = 0, refcount_m = Some 0, nof_allocs_m = Some 1\<rparr>)],
              pworld = world0\<lparr>ints := [0 \<mapsto> 2, 1 \<mapsto> 0]\<rparr>\<rparr>"
  by (simp add: p_shared_def run_shared)

lemma releases_unshared_shared: "releases_unshared process0 es_shared"
  by (simp add: es_shared_def release_unshared_def split: option.splits)

lemma by_template_shared: "list_all by_template es_shared"
  by (simp add: es_shared_def by_template_def)

text \<open>
  An instance: after \<^verbatim>\<open>fb_alloc<A,2,8> x; fb_alloc<B,2,8> y(x); fb_alloc<A,2,8> z(y);\<close> and
  the destruction of \<^verbatim>\<open>x\<close>, \<^verbatim>\<open>y.refcount()\<close> is 2, the number of live objects (\<^verbatim>\<open>y\<close> and
  \<^verbatim>\<open>z\<close>) on the counters of \<^verbatim>\<open>x\<close>.
\<close>

lemma template_sharing_counted_example:
  "run_events process0 es_shared = Some p_shared
   \<and> releases_unshared process0 es_shared
   \<and> list_all by_template es_shared
   \<and> object_at p_shared 1 = Some (cfg_b, h_shared)
   \<and> refcount_m h_shared = Some 0
   \<and> refcount h_shared (pworld p_shared) = Inr (int (count_refs p_shared 0))
   \<and> 1 \<le> count_refs p_shared 0
   \<and> count_refs p_shared 0 = 2"
proof -
  have r: "run_events process0 es_shared = Some p_shared"
    by (simp add: p_shared_eq run_shared)
  have o: "object_at p_shared 1 = Some (cfg_b, h_shared)"
    by (simp add: h_shared_def p_shared_eq object_at_def)
  have m: "refcount_m h_shared = Some 0"
    by (simp add: h_shared_def p_shared_eq object_at_def)
  have n: "count_refs p_shared 0 = 2"
    by (simp add: p_shared_eq count_refs_def shares_def)
  from template_sharing_counted [OF r releases_unshared_shared by_template_shared o m] r
    releases_unshared_shared by_template_shared o m n
  show ?thesis by simp
qed

text \<open>
  Claim C5 at a copy: \<^verbatim>\<open>fb_alloc<A,2,8> x; fb_alloc<A,2,8> y(x);\<close>. The copy is made by the
  implicitly defined copy constructor, not by the member template that the source calls
  the copy constructor, so the count is not incremented: two live objects share the
  counters of \<^verbatim>\<open>x\<close>, and \<^verbatim>\<open>refcount()\<close> is 1 on both. When \<^verbatim>\<open>x\<close> is then destroyed, its
  destructor takes the count to 0 and deletes the counters that \<^verbatim>\<open>y\<close> still points to:
  \<^verbatim>\<open>y.refcount()\<close> reads deleted storage. The member template, called for the same \<^verbatim>\<open>x\<close>
  from another element type of the same block size, increments the count to 2.
\<close>

theorem implicit_copy_not_counted:
  "map_option refcounts (run_events process0 [Construct cfg_a (Some 0) (Some 1), Copy 0])
     = Some [Some (Inr 1), Some (Inr 1)]
   \<and> map_option (\<lambda>p. count_refs p 0)
       (run_events process0 [Construct cfg_a (Some 0) (Some 1), Copy 0])
     = Some 2
   \<and> map_option refcounts
       (run_events process0 [Construct cfg_a (Some 0) (Some 1), Copy 0, Destroy 0])
     = Some [None, Some (Inl Dangling_pointer)]
   \<and> map_option refcounts
       (run_events process0 [Construct cfg_a (Some 0) (Some 1), Share cfg_b 0 None None])
     = Some [Some (Inr 2), Some (Inr 2)]"
  by (simp add: process_defs ctor_cfg_a refcounts_def count_refs_def shares_def
      clean_def clean_loop_null delete_int_def)

section \<open>Chunks of a single block in use (claims C4 and C7)\<close>

lemma funpow_eight: "(f ^^ 8) x = f (f (f (f (f (f (f (f x)))))))"
  by (simp add: numeral_eq_Suc)

lemma load64_zero: "load64 (\<lambda>_. 0) a = 0"
  by (simp add: load64_def)

lemma s1_one_fields:
  "allocate cfg1 (h1, w_int) 1 (Some 4096) = Returns 4096 s1_one"
  "fst s1_one = h1\<lparr>pool_head_m := 4104, chunk_head_m := 4096\<rparr>"
  "load64 (mem (snd s1_one)) 4104 = 4112"
  "load64 (mem (snd s1_one)) 4120 = 4128"
  "load64 (mem (snd s1_one)) 4136 = 4144"
  "load64 (mem (snd s1_one)) 4152 = 4160"
  "load64 (mem (snd s1_one)) 4168 = 0"
  "ints (snd s1_one) = [0 \<mapsto> 1, 1 \<mapsto> 1]"
  "statics_of (snd s1_one) cfg1
     = \<lparr>global_chunk_head = 0, nof_allocated_chunks = 1, nof_free_chunks = 0\<rparr>"
  unfolding s1_one_def
  by (simp_all add: eval_defs cfg1_def h1_def funpow_eight
      load64_store64_same load64_store64_apart apart_def load64_memset0_outside load64_zero)

lemma ndebug_cfg1: "NDEBUG cfg1 = False"
  by (simp add: cfg1_def)

lemma s1_second:
  "allocate cfg1 s1_one 1 heap
     = Returns 4104 (h1\<lparr>pool_head_m := 4112, chunk_head_m := 4096\<rparr>,
                     (snd s1_one)\<lparr>ints := (ints (snd s1_one))(1 \<mapsto> 2)\<rparr>)"
proof -
  have "allocate cfg1 (fst s1_one, snd s1_one) 1 heap
     = Returns 4104 (h1\<lparr>pool_head_m := 4112, chunk_head_m := 4096\<rparr>,
                     (snd s1_one)\<lparr>ints := (ints (snd s1_one))(1 \<mapsto> 2)\<rparr>)"
    using s1_one_fields(8)
    by (simp add: allocate_def s1_one_fields(2,3) h1_def add_int_def int_add_def INT_MIN_def
        INT_MAX_def assert_def ndebug_cfg1 Let_def)
  then show ?thesis by simp
qed

lemma s1_two_fields:
  "allocate_seq cfg1 (h1, w_int) [Some 4096, None] = Some ([4096, 4104], s1_two)"
  "fst s1_two = h1\<lparr>pool_head_m := 4112, chunk_head_m := 4096\<rparr>"
  "mem (snd s1_two) = mem (snd s1_one)"
  by (simp_all add: s1_two_def s1_one_fields(1) s1_second)

text \<open>
  Claim C4 at \<open>nof_elements = 1\<close>, with assertions compiled in: on a fresh
  \<^verbatim>\<open>fb_alloc<long,1,8>\<close> the second \<^verbatim>\<open>allocate(1)\<close> returns 4104, the address that the
  eight link statements of \<^verbatim>\<open>grow\<close> put behind the only block of the chunk at 4096.
  \<^verbatim>\<open>check\<close> accepts 4096 alone, so \<^verbatim>\<open>deallocate(4104, 1)\<close> dies in \<^verbatim>\<open>assert( check(p) )\<close>:
  the block obtained from \<^verbatim>\<open>allocate(1)\<close> cannot be given back, and no \<^verbatim>\<open>allocate(1)\<close>
  follows.
\<close>

theorem deallocate_single_block_aborts:
  "allocate_seq cfg1 (h1, w_int) [Some 4096, None] = Some ([4096, 4104], s1_two)
   \<and> check (fst s1_two) (snd s1_two) 4096 = Some True
   \<and> check (fst s1_two) (snd s1_two) 4104 = Some False
   \<and> deallocate cfg1 s1_two 4104 1 = Some (Aborts Assertion_failed)"
proof -
  have c: "check (fst s1_two) (snd s1_two) 4104 = Some False"
    by (simp add: check_def s1_two_fields(2,3) s1_one_fields(3-7) h1_def check_loop.simps)
  have t: "check (fst s1_two) (snd s1_two) 4096 = Some True"
    by (simp add: check_def s1_two_fields(2,3) s1_one_fields(3-7) h1_def check_loop.simps)
  have "deallocate cfg1 s1_two 4104 1 = Some (Aborts Assertion_failed)"
    using c by (simp add: deallocate_def split_beta ndebug_cfg1)
  with c t s1_two_fields(1) show ?thesis by simp
qed

lemma statics_ints_update: "statics_of (w\<lparr>ints := i\<rparr>) = statics_of w"
  by simp

text \<open>
  Claim C7 at \<open>nof_elements = 1\<close>, with assertions compiled in: after the first
  \<^verbatim>\<open>allocate(1)\<close> on a fresh \<^verbatim>\<open>fb_alloc<long,1,8>\<close> the counters are live and
  \<^verbatim>\<open>refcount()\<close> is 1. The link loop of \<^verbatim>\<open>grow\<close> has overwritten the chunk's link to the
  previous chunk (at 4104) with 4112, so \<^verbatim>\<open>clean\<close> retires the chunk at 4096 and then
  takes 4112 for a second chunk; retiring it makes the count of free chunks 2, above the
  count of allocated chunks 1, and \<^verbatim>\<open>release()\<close> dies in
  \<^verbatim>\<open>assert( nof_free_chunks_ <= nof_allocated_chunks_ )\<close>.
\<close>

theorem release_single_block_aborts:
  "allocate cfg1 (h1, w_int) 1 (Some 4096) = Returns 4096 s1_one
   \<and> refcount (fst s1_one) (snd s1_one) = Inr 1
   \<and> nof_allocs (fst s1_one) (snd s1_one) = Inr 1
   \<and> release cfg1 s1_one = Some (Aborts Assertion_failed)"
proof -
  have r: "refcount (fst s1_one) (snd s1_one) = Inr 1"
    "nof_allocs (fst s1_one) (snd s1_one) = Inr 1"
    by (simp_all add: refcount_def nof_allocs_def s1_one_fields(2,8) h1_def)
  define w1 where "w1 = (snd s1_one)\<lparr>ints := (ints (snd s1_one))(0 \<mapsto> 0)\<rparr>"
  have a: "add_int (snd s1_one) (Some 0) (- 1) = Inr (0, w1)"
    by (simp add: add_int_def s1_one_fields(8) int_add_def INT_MIN_def INT_MAX_def w1_def)
  define w2 where "w2 = w1\<lparr>mem := store64 (mem w1) 4096 0,
      statics_of := (statics_of w1)
        (cfg1 := \<lparr>global_chunk_head = 4096, nof_allocated_chunks = 1, nof_free_chunks = 1\<rparr>)\<rparr>"
  have d1: "deallocate_chunk cfg1 w1 4096 = Inr w2"
    by (simp add: deallocate_chunk_def w1_def w2_def s1_one_fields(9) int_add_def INT_MIN_def
        INT_MAX_def assert_def ndebug_cfg1)
  have d2: "deallocate_chunk cfg1 w2 4112 = Inl Assertion_failed"
    by (simp add: deallocate_chunk_def w2_def int_add_def INT_MIN_def INT_MAX_def assert_def
        ndebug_cfg1)
  have l1: "load64 (mem w1) 4104 = 4112"
    by (simp add: w1_def s1_one_fields(3))
  have c2: "clean_loop cfg1 8 4112 w2 = Some (Inl Assertion_failed)"
    by (subst clean_loop.simps) (simp add: d2)
  have c1: "clean_loop cfg1 8 4096 w1 = Some (Inl Assertion_failed)"
    by (subst clean_loop.simps) (simp add: d1 l1 c2)
  have "clean cfg1 (fst s1_one, w1) = Some (Inl Assertion_failed)"
    by (simp add: clean_def s1_one_fields(2) h1_def c1)
  then have "release cfg1 s1_one = Some (Aborts Assertion_failed)"
    using a by (simp add: release_def split_beta s1_one_fields(2) h1_def assert_def)
  with r s1_one_fields(1) show ?thesis by simp
qed

lemma cfg_a_neq_b: "cfg_a \<noteq> cfg_b" "cfg_b \<noteq> cfg_a"
  by (simp_all add: cfg_a_def cfg_b_def)

text \<open>
  The same assertion fails with two blocks in a chunk when the last object of a group
  belongs to another instantiation than the object that grew the pool. After
  \<^verbatim>\<open>fb_alloc<A,2,8> x; p = x.allocate(1); x.deallocate(p, 1); fb_alloc<B,2,8> y(x);\<close> and
  the destruction of \<^verbatim>\<open>x\<close>, \<^verbatim>\<open>y.refcount()\<close> is 1 and \<^verbatim>\<open>y.release()\<close> retires the chunk at
  4096 to the global chunk list of \<^verbatim>\<open>fb_alloc<B,2,8>\<close>, whose count of allocated chunks
  is 0.
\<close>

lemma release_cross_type_aborts:
  "map_option refcounts (run_events process0 es_cross) = Some [None, Some (Inr 1)]
   \<and> Option.bind (run_events process0 es_cross) (\<lambda>p. release_at p 1)
       = Some (Aborts Assertion_failed)"
  by (simp add: es_cross_def process_defs eval_defs ctor_cfg_a deallocate_def check_def
      check_loop.simps clean_def clean_loop.simps deallocate_chunk_def release_at_def
      refcounts_def
      load64_store64_same load64_store64_apart apart_def load64_memset0_outside load64_zero)

section \<open>A null reference count alone (claim C10)\<close>

text \<open>
  Claim C10, as stated: on an object with a null counter every \<^verbatim>\<open>allocate(1)\<close> throws and
  the free list never becomes non-empty. Counterexample, with assertions compiled out:
  \<^verbatim>\<open>fb_alloc<T13,100,8> b(a);\<close> from an \<^verbatim>\<open>fb_alloc<int,100,8>\<close>, where the
  \<^verbatim>\<open>new (std::nothrow) int\<close> for \<^verbatim>\<open>refcount_\<close> fails and the one for \<^verbatim>\<open>nof_allocs_\<close> does
  not. \<^verbatim>\<open>b.deallocate(4096, 1)\<close> is not checked and puts 4096 on the free list; the next
  \<^verbatim>\<open>b.allocate(1)\<close> finds the free list non-empty, does not call \<^verbatim>\<open>grow\<close> (the only place
  where the counters are tested) and returns 4096.
\<close>

theorem null_counters_counterexample:
  "fb_alloc_copy_ctor cfg13_ndebug w_int h_int None (Some 2) = Returns h_half w_half
   \<and> refcount_m h_half = None \<and> pool_head_m h_half = 0 \<and> chunk_head_m h_half = 0
   \<and> map_option (pool_head_m \<circ> fst) (run cfg13_ndebug (h_half, w_half) [Deallocate 4096 1])
       = Some 4096
   \<and> Option.bind (run cfg13_ndebug (h_half, w_half) [Deallocate 4096 1])
         (\<lambda>s. returned (allocate cfg13_ndebug s 1 None))
       = Some 4096"
proof -
  have c: "fb_alloc_copy_ctor cfg13_ndebug w_int h_int None (Some 2) = Returns h_half w_half"
    apply (simp add: fb_alloc_copy_ctor_def cfg13_ndebug_def h_int_def h_half_def w_half_def
        assert_def Let_def w_int_def)
    apply (simp add: calc_elsize_unfold [of 13 8] calc_elsize_unfold [of 14 8]
        calc_elsize_unfold [of 15 8] calc_elsize_unfold [of 16 8])
    done
  have r: "map_option (pool_head_m \<circ> fst) (run cfg13_ndebug (h_half, w_half) [Deallocate 4096 1])
       = Some 4096
   \<and> Option.bind (run cfg13_ndebug (h_half, w_half) [Deallocate 4096 1])
         (\<lambda>s. returned (allocate cfg13_ndebug s 1 None))
       = Some 4096"
    by (simp add: do_call_def deallocate_def cfg13_ndebug_def h_half_def w_half_def w_int_def
        world0_def add_int_def int_add_def INT_MIN_def INT_MAX_def assert_def Let_def
        state_after_def allocate_def returned_def load64_store64_same)
  from c r show ?thesis by (simp add: h_half_def)
qed

end
